theory Spec2Isabelle
  imports Main "HOL-Library.Word"
begin

section \<open>The reservoir sampling service: data model\<close>

text \<open>
  The Go package \<^verbatim>\<open>reservoir\<close> keeps one process-wide \<^verbatim>\<open>ReservoirState\<close>
  (the singleton returned by \<^verbatim>\<open>Instance()\<close>); every method works on that singleton,
  whatever its receiver. The model passes this state explicitly.

  Session identifiers are \<^verbatim>\<open>uint64\<close>: 64-bit words, whose addition wraps around.
  Go's \<^verbatim>\<open>int\<close> is taken at its 64-bit width: values are integers between
  \<open>MinInt\<close> and \<open>MaxInt\<close>, and \<^verbatim>\<open>+=\<close> wraps around in two's complement.
\<close>

type_synonym uint64 = "64 word"

definition MaxInt :: int where
  "MaxInt = 2 ^ 63 - 1"

definition MinInt :: int where
  "MinInt = - (2 ^ 63)"

text \<open>Two's complement wrap-around of an integer result into the range of \<^verbatim>\<open>int\<close>.\<close>

definition wrap_int :: "int \<Rightarrow> int" where
  "wrap_int x = (x + 2 ^ 63) mod 2 ^ 64 - 2 ^ 63"

definition int_add :: "int \<Rightarrow> int \<Rightarrow> int" where
  "int_add a b = wrap_int (a + b)"

text \<open>
  \<^verbatim>\<open>type Reservoir struct { data []int; k int; n int }\<close>
\<close>

record Reservoir =
  data :: "int list"
  k :: int
  n :: int

text \<open>
  A \<^verbatim>\<open>sync.RWMutex\<close> value: whether a writer holds it, and how many readers do.
  The zero value \<^verbatim>\<open>sync.RWMutex{}\<close> is an unlocked mutex.
\<close>

record RWMutex =
  writer :: bool
  readerCount :: nat

definition RWMutex_zero :: RWMutex where
  "RWMutex_zero = \<lparr>writer = False, readerCount = 0\<rparr>"

definition can_Lock :: "RWMutex \<Rightarrow> bool" where
  "can_Lock m = (\<not> writer m \<and> readerCount m = 0)"

text \<open>
  \<^verbatim>\<open>type ReservoirState struct\<close>: the two maps and the counter behind
  \<^verbatim>\<open>nextSessionID\<close>. The map \<^verbatim>\<open>sessionToReservoir\<close> holds pointers; every
  pointer is stored under one key only (a fresh \<^verbatim>\<open>&Reservoir{...}\<close> per creation), so
  the sequential model stores the reservoir itself. The map \<^verbatim>\<open>sessionToSessionLock\<close>
  holds mutex values, not pointers. The two coarse locks \<^verbatim>\<open>sessionToReservoirLock\<close>
  and \<^verbatim>\<open>sessionToSessionLockLock\<close> are acquired and released inside each call and are
  free between calls; the sequential model leaves them out. The slice \<^verbatim>\<open>data\<close> shares
  its array with the slice given to \<^verbatim>\<open>AtomicCreateReservoir\<close>, which is decoded from
  the request and used for nothing else, so \<^verbatim>\<open>data\<close> is a list of its own.
\<close>

record ReservoirState =
  sessionToReservoir :: "uint64 \<rightharpoonup> Reservoir"
  sessionToSessionLock :: "uint64 \<rightharpoonup> RWMutex"
  nextSessionID :: uint64

text \<open>
  The only error value the package builds is
  \<^verbatim>\<open>fmt.Errorf("Session ID %v not found.", sessionID)\<close>.
\<close>

datatype error = NotFound uint64

text \<open>
  Ways in which a call does not return: a run-time panic (nothing recovers it, so the
  process ends), or a \<^verbatim>\<open>Lock()\<close> that waits for ever.
\<close>

datatype abort = NilPointerDereference | IntnInvalidArgument | IndexOutOfRange | BlockedForever

section \<open>The session store (state.go)\<close>

definition NewReservoirState :: ReservoirState where
  "NewReservoirState =
     \<lparr>sessionToReservoir = Map.empty, sessionToSessionLock = Map.empty, nextSessionID = 1\<rparr>"

text \<open>
  \<^verbatim>\<open>AtomicGetSessionIDAndIncrement\<close>, run without interference: load the counter,
  add one to it, return the value loaded.
\<close>

definition AtomicGetSessionIDAndIncrement :: "ReservoirState \<Rightarrow> uint64 \<times> ReservoirState" where
  "AtomicGetSessionIDAndIncrement s =
     (let sessionID = nextSessionID s
      in (sessionID, s\<lparr>nextSessionID := nextSessionID s + 1\<rparr>))"

definition AtomicCreateReservoir :: "int list \<Rightarrow> ReservoirState \<Rightarrow> uint64 \<times> ReservoirState" where
  "AtomicCreateReservoir reservoir s =
     (let res = \<lparr>data = reservoir, k = int (length reservoir), n = int (length reservoir)\<rparr>;
          (sessionID, s1) = AtomicGetSessionIDAndIncrement s;
          s2 = s1\<lparr>sessionToReservoir := (sessionToReservoir s1)(sessionID \<mapsto> res)\<rparr>;
          s3 = s2\<lparr>sessionToSessionLock := (sessionToSessionLock s2)(sessionID \<mapsto> RWMutex_zero)\<rparr>
      in (sessionID, s3))"

text \<open>
  \<^verbatim>\<open>rand.Intn(m)\<close> panics when \<open>m \<le> 0\<close> and otherwise returns some number of
  \<open>[0, m)\<close>. The generator's hidden state is the parameter \<open>seed\<close>: every number of
  the range is the result for some seed. Probabilities are not modelled.
\<close>

definition rand_Intn :: "nat \<Rightarrow> int \<Rightarrow> abort + int" where
  "rand_Intn seed m = (if m \<le> 0 then Inl IntnInvalidArgument else Inr (int seed mod m))"

text \<open>
  \<^verbatim>\<open>AtomicUpdateReservoir\<close>. The lock found in the map is copied into the local
  variable \<^verbatim>\<open>reservoirLock\<close> and that copy is locked and unlocked; the map is not
  written. A missing reservoir is a nil pointer, dereferenced by \<^verbatim>\<open>reservoir.n += 1\<close>.
  The result is the \<^verbatim>\<open>error\<close> returned (\<open>None\<close> for \<^verbatim>\<open>nil\<close>) and the state.
\<close>

definition AtomicUpdateReservoir ::
  "ReservoirState \<Rightarrow> nat \<Rightarrow> uint64 \<Rightarrow> int \<Rightarrow> abort + (error option \<times> ReservoirState)" where
  "AtomicUpdateReservoir s seed sessionID integerToAdd =
     (case sessionToSessionLock s sessionID of
        None \<Rightarrow> Inr (Some (NotFound sessionID), s)
      | Some reservoirLock \<Rightarrow>
          if \<not> can_Lock reservoirLock then Inl BlockedForever
          else
            (case sessionToReservoir s sessionID of
               None \<Rightarrow> Inl NilPointerDereference
             | Some reservoir \<Rightarrow>
                 (let reservoir1 = reservoir\<lparr>n := int_add (n reservoir) 1\<rparr>
                  in case rand_Intn seed (n reservoir1) of
                       Inl a \<Rightarrow> Inl a
                     | Inr randomIndex \<Rightarrow>
                         if randomIndex < k reservoir1 then
                           (if 0 \<le> randomIndex \<and> nat randomIndex < length (data reservoir1) then
                              Inr (None, s\<lparr>sessionToReservoir := (sessionToReservoir s)
                                (sessionID \<mapsto> reservoir1
                                   \<lparr>data := (data reservoir1)[nat randomIndex := integerToAdd]\<rparr>)\<rparr>)
                            else Inl IndexOutOfRange)
                         else
                           Inr (None, s\<lparr>sessionToReservoir := (sessionToReservoir s)
                                (sessionID \<mapsto> reservoir1)\<rparr>))))"

text \<open>
  \<^verbatim>\<open>AtomicEndReservoirSession\<close> returns \<^verbatim>\<open>(nil, err)\<close> or \<^verbatim>\<open>(data, nil)\<close>:
  \<open>Inl err\<close> or \<open>Inr data\<close> here. A missing reservoir is a nil pointer, dereferenced
  by \<^verbatim>\<open>reservoir.data\<close>.
\<close>

definition AtomicEndReservoirSession ::
  "ReservoirState \<Rightarrow> uint64 \<Rightarrow> abort + ((error + int list) \<times> ReservoirState)" where
  "AtomicEndReservoirSession s sessionID =
     (case sessionToSessionLock s sessionID of
        None \<Rightarrow> Inr (Inl (NotFound sessionID), s)
      | Some reservoirLock \<Rightarrow>
          if \<not> can_Lock reservoirLock then Inl BlockedForever
          else
            (case sessionToReservoir s sessionID of
               None \<Rightarrow> Inl NilPointerDereference
             | Some reservoir \<Rightarrow>
                 (let data1 = data reservoir;
                      s1 = s\<lparr>sessionToReservoir := (sessionToReservoir s)(sessionID := None)\<rparr>;
                      s2 = s1\<lparr>sessionToSessionLock := (sessionToSessionLock s1)(sessionID := None)\<rparr>
                  in Inr (Inr data1, s2))))"

section \<open>The API (package api)\<close>

text \<open>
  \<^verbatim>\<open>BeginSession\<close> returns the identifier and a \<^verbatim>\<open>nil\<close> error;
  \<^verbatim>\<open>AddInteger\<close> and \<^verbatim>\<open>EndSession\<close> pass their arguments on.
\<close>

definition BeginSession :: "int list \<Rightarrow> ReservoirState \<Rightarrow> (uint64 \<times> error option) \<times> ReservoirState" where
  "BeginSession initialReservoir s =
     (let (sessionID, s1) = AtomicCreateReservoir initialReservoir s
      in ((sessionID, None), s1))"

definition AddInteger ::
  "ReservoirState \<Rightarrow> nat \<Rightarrow> uint64 \<Rightarrow> int \<Rightarrow> abort + (error option \<times> ReservoirState)" where
  "AddInteger s seed sessionID integerToAdd = AtomicUpdateReservoir s seed sessionID integerToAdd"

definition EndSession ::
  "ReservoirState \<Rightarrow> uint64 \<Rightarrow> abort + ((error + int list) \<times> ReservoirState)" where
  "EndSession s sessionID = AtomicEndReservoirSession s sessionID"

subsection \<open>Sequences of calls\<close>

text \<open>
  A call of the API, with the seed of the draw for an \<^verbatim>\<open>AddInteger\<close>, and what the
  call returns. \<open>run\<close> performs a list of calls one after the other, from left to
  right, and stops at the first call that does not return.
\<close>

datatype call = CallBegin "int list" | CallAdd uint64 int nat | CallEnd uint64

datatype reply = Began uint64 "error option" | Added "error option" | Ended "error + int list"

fun perform :: "call \<Rightarrow> ReservoirState \<Rightarrow> abort + (reply \<times> ReservoirState)" where
  "perform (CallBegin initialReservoir) s =
     (case BeginSession initialReservoir s of ((sessionID, err), s1) \<Rightarrow> Inr (Began sessionID err, s1))"
| "perform (CallAdd sessionID integerToAdd seed) s =
     (case AddInteger s seed sessionID integerToAdd of
        Inl a \<Rightarrow> Inl a
      | Inr (err, s1) \<Rightarrow> Inr (Added err, s1))"
| "perform (CallEnd sessionID) s =
     (case EndSession s sessionID of
        Inl a \<Rightarrow> Inl a
      | Inr (res, s1) \<Rightarrow> Inr (Ended res, s1))"

fun run :: "call list \<Rightarrow> ReservoirState \<Rightarrow> abort + (reply list \<times> ReservoirState)" where
  "run [] s = Inr ([], s)"
| "run (c # cs) s =
     (case perform c s of
        Inl a \<Rightarrow> Inl a
      | Inr (r, s1) \<Rightarrow>
          (case run cs s1 of
             Inl a \<Rightarrow> Inl a
           | Inr (rs, s2) \<Rightarrow> Inr (r # rs, s2)))"

text \<open>The identifiers handed out by the \<^verbatim>\<open>BeginSession\<close> calls of a run, in order.\<close>

fun began_ids :: "reply list \<Rightarrow> uint64 list" where
  "began_ids [] = []"
| "began_ids (Began sessionID err # rs) = sessionID # began_ids rs"
| "began_ids (r # rs) = began_ids rs"

text \<open>A Go slice has at most \<open>MaxInt\<close> elements: \<^verbatim>\<open>len\<close> returns an \<^verbatim>\<open>int\<close>.\<close>

definition go_slice :: "int list \<Rightarrow> bool" where
  "go_slice xs = (int (length xs) \<le> MaxInt)"

fun go_call :: "call \<Rightarrow> bool" where
  "go_call (CallBegin initialReservoir) = go_slice initialReservoir"
| "go_call c = True"

section \<open>Well-formed states\<close>

definition wf_reservoir :: "Reservoir \<Rightarrow> bool" where
  "wf_reservoir r = (int (length (data r)) = k r \<and> k r \<le> n r \<and> n r \<le> MaxInt)"

definition same_keys :: "ReservoirState \<Rightarrow> bool" where
  "same_keys s = (dom (sessionToReservoir s) = dom (sessionToSessionLock s))"

definition wf_state :: "ReservoirState \<Rightarrow> bool" where
  "wf_state s =
     (same_keys s \<and>
      (\<forall>sessionID r. sessionToReservoir s sessionID = Some r \<longrightarrow> wf_reservoir r) \<and>
      (\<forall>sessionID m. sessionToSessionLock s sessionID = Some m \<longrightarrow> m = RWMutex_zero))"

section \<open>The begin request: handler and job (package server)\<close>

text \<open>
  What a handler writes to its \<^verbatim>\<open>http.ResponseWriter\<close>: the status code of the
  first \<^verbatim>\<open>WriteHeader\<close> (later calls are ignored by net/http and only logged), and
  the pieces written to the body, in order. Response headers are not modelled. A piece
  of the body is a line of text, the text of an error, or a JSON document.
\<close>

datatype chunk = Text string | ErrorText error | SessionIDJSON uint64 | SampleJSON "int list"

record ResponseWriter =
  wroteHeader :: bool
  status :: nat
  body :: "chunk list"

definition NewResponseWriter :: ResponseWriter where
  "NewResponseWriter = \<lparr>wroteHeader = False, status = 0, body = []\<rparr>"

definition StatusOK :: nat where
  "StatusOK = 200"

definition StatusBadRequest :: nat where
  "StatusBadRequest = 400"

definition StatusInternalServerError :: nat where
  "StatusInternalServerError = 500"

definition WriteHeader :: "nat \<Rightarrow> ResponseWriter \<Rightarrow> ResponseWriter" where
  "WriteHeader code w = (if wroteHeader w then w else w\<lparr>wroteHeader := True, status := code\<rparr>)"

text \<open>\<^verbatim>\<open>Write\<close> sends the header with \<^verbatim>\<open>StatusOK\<close> first when none was sent.\<close>

definition Write :: "chunk \<Rightarrow> ResponseWriter \<Rightarrow> ResponseWriter" where
  "Write c w = (let w1 = WriteHeader StatusOK w in w1\<lparr>body := body w1 @ [c]\<rparr>)"

text \<open>\<^verbatim>\<open>http.Error(w, msg, code)\<close>: \<^verbatim>\<open>w.WriteHeader(code)\<close>, then the message as a line.\<close>

definition http_Error :: "ResponseWriter \<Rightarrow> chunk \<Rightarrow> nat \<Rightarrow> ResponseWriter" where
  "http_Error w msg code = Write msg (WriteHeader code w)"

text \<open>
  \<^verbatim>\<open>requestData\<close> as \<^verbatim>\<open>json.Unmarshal\<close> fills it. Its field
  \<^verbatim>\<open>responseWriter\<close> refers to the writer of the request; the model passes that
  writer next to the request.
\<close>

record requestData =
  Reservoir :: "int list"
  SessionID :: uint64
  IntegerToAdd :: int

definition MISSING_INPUT_RESERVOIR :: nat where
  "MISSING_INPUT_RESERVOIR = 0"

text \<open>
  \<^verbatim>\<open>JobBeginSession.Process\<close>. \<^verbatim>\<open>json.Marshal\<close> of a struct with one
  \<^verbatim>\<open>uint64\<close> field does not fail, so its error branch is left out.
\<close>

definition JobBeginSession_Process ::
  "requestData \<Rightarrow> ResponseWriter \<Rightarrow> ReservoirState \<Rightarrow> error option \<times> ResponseWriter \<times> ReservoirState" where
  "JobBeginSession_Process request w s =
     (case BeginSession (Reservoir request) s of
        ((sessionID, Some err), s1) \<Rightarrow>
          (Some err, http_Error w (ErrorText err) StatusInternalServerError, s1)
      | ((sessionID, None), s1) \<Rightarrow>
          (None, Write (SessionIDJSON sessionID) (WriteHeader StatusOK w), s1))"

text \<open>
  Modelled from the spec: the dispatcher (\<^verbatim>\<open>server.NewDispatcher\<close>, which is not among
  the sources) takes each job from \<^verbatim>\<open>JobQueue\<close> and hands it to an idle worker. The
  worker (\<^verbatim>\<open>Worker.Start\<close>) calls \<^verbatim>\<open>Process\<close> and then \<^verbatim>\<open>markDone\<close>, which
  lets the handler return. So \<^verbatim>\<open>JobQueue <- work; <-done\<close> is one call of
  \<^verbatim>\<open>Process\<close>.
\<close>

definition dispatch_begin ::
  "requestData \<Rightarrow> ResponseWriter \<Rightarrow> ReservoirState \<Rightarrow> ResponseWriter \<times> ReservoirState" where
  "dispatch_begin request w s =
     (case JobBeginSession_Process request w s of (err, w1, s1) \<Rightarrow> (w1, s1))"

text \<open>
  \<^verbatim>\<open>beginHandler\<close>, from the result of \<^verbatim>\<open>json.Unmarshal\<close> on: whether it
  returned an error, and the request it filled. Neither \<^verbatim>\<open>if\<close> returns: the job is
  queued after both.
\<close>

definition beginHandler ::
  "bool \<Rightarrow> requestData \<Rightarrow> ResponseWriter \<Rightarrow> ReservoirState \<Rightarrow> ResponseWriter \<times> ReservoirState" where
  "beginHandler unmarshalFailed req w s =
     (let w1 = (if unmarshalFailed
                then http_Error w (Text ''Invalid input: make sure the input matches specifications.'')
                       StatusBadRequest
                else w);
          w2 = (if length (Reservoir req) = MISSING_INPUT_RESERVOIR
                then http_Error w1 (Text ''Missing input: initial K integers for reservoir.'')
                       StatusBadRequest
                else w1)
      in dispatch_begin req w2 s)"

section \<open>Calls that run at the same time\<close>

text \<open>
  Each call is a thread: a position in the function's code and the function's local
  variables. A step runs one instruction of one thread on the shared
  \<^verbatim>\<open>ReservoirState\<close>; a schedule lists which thread steps next.
\<close>

subsection \<open>\<^verbatim>\<open>AtomicCreateReservoir\<close>, step by step\<close>

text \<open>
  The instructions of one call: \<^verbatim>\<open>atomic.LoadUint64\<close>, \<^verbatim>\<open>atomic.AddUint64\<close>
  (two separate atomic operations), then the two map writes, which run inside
  \<^verbatim>\<open>sessionToReservoirLock.Lock()\<close> and are one step for all other creations.
\<close>

datatype create_pc = CreateLoad | CreateAdd | CreateInsert | CreateReturned

record create_thread =
  c_pc :: create_pc
  c_reservoir :: "int list"
  c_sessionID :: uint64

definition create_call :: "int list \<Rightarrow> create_thread" where
  "create_call reservoir = \<lparr>c_pc = CreateLoad, c_reservoir = reservoir, c_sessionID = 0\<rparr>"

fun create_step :: "create_pc \<Rightarrow> create_thread \<Rightarrow> ReservoirState \<Rightarrow> create_thread \<times> ReservoirState" where
  "create_step CreateLoad t s = (t\<lparr>c_pc := CreateAdd, c_sessionID := nextSessionID s\<rparr>, s)"
| "create_step CreateAdd t s = (t\<lparr>c_pc := CreateInsert\<rparr>, s\<lparr>nextSessionID := nextSessionID s + 1\<rparr>)"
| "create_step CreateInsert t s =
     (let res = \<lparr>data = c_reservoir t, k = int (length (c_reservoir t)),
                 n = int (length (c_reservoir t))\<rparr>;
          s1 = s\<lparr>sessionToReservoir := (sessionToReservoir s)(c_sessionID t \<mapsto> res)\<rparr>;
          s2 = s1\<lparr>sessionToSessionLock := (sessionToSessionLock s1)(c_sessionID t \<mapsto> RWMutex_zero)\<rparr>
      in (t\<lparr>c_pc := CreateReturned\<rparr>, s2))"
| "create_step CreateReturned t s = (t, s)"

fun create_schedule :: "nat list \<Rightarrow> create_thread list \<Rightarrow> ReservoirState \<Rightarrow> create_thread list \<times> ReservoirState" where
  "create_schedule [] ts s = (ts, s)"
| "create_schedule (i # is) ts s =
     (if i < length ts then
        (case create_step (c_pc (ts ! i)) (ts ! i) s of
           (t1, s1) \<Rightarrow> create_schedule is (ts[i := t1]) s1)
      else create_schedule is ts s)"

subsection \<open>\<^verbatim>\<open>AtomicUpdateReservoir\<close>, step by step\<close>

text \<open>
  The local variables of one call: the copy \<^verbatim>\<open>reservoirLock\<close> of the mutex found in
  the map, the pointer \<^verbatim>\<open>reservoir\<close> (the key whose object it points to, or nil), the
  value read by \<^verbatim>\<open>reservoir.n += 1\<close> before it is written back, and
  \<^verbatim>\<open>randomIndex\<close>. Go gives \<^verbatim>\<open>+=\<close> no atomicity: it is a read of
  \<^verbatim>\<open>reservoir.n\<close> followed by a write. These threads never remove or replace a map
  entry, so the object behind a pointer is the one stored under its key.
\<close>

datatype update_pc =
  UpdLookup | UpdLock | UpdFetch | UpdLoadN | UpdStoreN | UpdDraw | UpdWrite | UpdUnlock
  | UpdReturned "error option"

record update_thread =
  u_pc :: update_pc
  u_sessionID :: uint64
  u_integerToAdd :: int
  u_seed :: nat
  u_reservoirLock :: RWMutex
  u_reservoir :: "uint64 option"
  u_loaded :: int
  u_randomIndex :: int

definition update_call :: "uint64 \<Rightarrow> int \<Rightarrow> nat \<Rightarrow> update_thread" where
  "update_call sessionID integerToAdd seed =
     \<lparr>u_pc = UpdLookup, u_sessionID = sessionID, u_integerToAdd = integerToAdd, u_seed = seed,
      u_reservoirLock = RWMutex_zero, u_reservoir = None, u_loaded = 0, u_randomIndex = 0\<rparr>"

text \<open>The object behind the pointer \<^verbatim>\<open>reservoir\<close>; a nil pointer cannot be dereferenced.\<close>

definition deref :: "update_thread \<Rightarrow> ReservoirState \<Rightarrow> abort + (uint64 \<times> Reservoir)" where
  "deref t s =
     (case u_reservoir t of
        None \<Rightarrow> Inl NilPointerDereference
      | Some p \<Rightarrow>
          (case sessionToReservoir s p of
             None \<Rightarrow> Inl NilPointerDereference
           | Some r \<Rightarrow> Inr (p, r)))"

definition store :: "uint64 \<Rightarrow> Reservoir \<Rightarrow> ReservoirState \<Rightarrow> ReservoirState" where
  "store p r s = s\<lparr>sessionToReservoir := (sessionToReservoir s)(p \<mapsto> r)\<rparr>"

fun update_step :: "update_pc \<Rightarrow> update_thread \<Rightarrow> ReservoirState \<Rightarrow> abort + (update_thread \<times> ReservoirState)" where
  "update_step UpdLookup t s =
     (case sessionToSessionLock s (u_sessionID t) of
        None \<Rightarrow> Inr (t\<lparr>u_pc := UpdReturned (Some (NotFound (u_sessionID t)))\<rparr>, s)
      | Some m \<Rightarrow> Inr (t\<lparr>u_pc := UpdLock, u_reservoirLock := m\<rparr>, s))"
| "update_step UpdLock t s =
     (if can_Lock (u_reservoirLock t)
      then Inr (t\<lparr>u_pc := UpdFetch, u_reservoirLock := (u_reservoirLock t)\<lparr>writer := True\<rparr>\<rparr>, s)
      else Inr (t, s))"
| "update_step UpdFetch t s =
     Inr (t\<lparr>u_pc := UpdLoadN,
            u_reservoir := (case sessionToReservoir s (u_sessionID t) of
                              None \<Rightarrow> None | Some r \<Rightarrow> Some (u_sessionID t))\<rparr>, s)"
| "update_step UpdLoadN t s =
     (case deref t s of
        Inl a \<Rightarrow> Inl a
      | Inr (p, r) \<Rightarrow> Inr (t\<lparr>u_pc := UpdStoreN, u_loaded := n r\<rparr>, s))"
| "update_step UpdStoreN t s =
     (case deref t s of
        Inl a \<Rightarrow> Inl a
      | Inr (p, r) \<Rightarrow> Inr (t\<lparr>u_pc := UpdDraw\<rparr>, store p (r\<lparr>n := int_add (u_loaded t) 1\<rparr>) s))"
| "update_step UpdDraw t s =
     (case deref t s of
        Inl a \<Rightarrow> Inl a
      | Inr (p, r) \<Rightarrow>
          (case rand_Intn (u_seed t) (n r) of
             Inl a \<Rightarrow> Inl a
           | Inr randomIndex \<Rightarrow> Inr (t\<lparr>u_pc := UpdWrite, u_randomIndex := randomIndex\<rparr>, s)))"
| "update_step UpdWrite t s =
     (case deref t s of
        Inl a \<Rightarrow> Inl a
      | Inr (p, r) \<Rightarrow>
          if u_randomIndex t < k r then
            (if 0 \<le> u_randomIndex t \<and> nat (u_randomIndex t) < length (data r) then
               Inr (t\<lparr>u_pc := UpdUnlock\<rparr>,
                    store p (r\<lparr>data := (data r)[nat (u_randomIndex t) := u_integerToAdd t]\<rparr>) s)
             else Inl IndexOutOfRange)
          else Inr (t\<lparr>u_pc := UpdUnlock\<rparr>, s))"
| "update_step UpdUnlock t s =
     Inr (t\<lparr>u_pc := UpdReturned None, u_reservoirLock := (u_reservoirLock t)\<lparr>writer := False\<rparr>\<rparr>, s)"
| "update_step (UpdReturned err) t s = Inr (t, s)"

fun update_schedule ::
  "nat list \<Rightarrow> update_thread list \<Rightarrow> ReservoirState \<Rightarrow> abort + (update_thread list \<times> ReservoirState)" where
  "update_schedule [] ts s = Inr (ts, s)"
| "update_schedule (i # is) ts s =
     (if i < length ts then
        (case update_step (u_pc (ts ! i)) (ts ! i) s of
           Inl a \<Rightarrow> Inl a
         | Inr (t1, s1) \<Rightarrow> update_schedule is (ts[i := t1]) s1)
      else update_schedule is ts s)"

subsection \<open>\<^verbatim>\<open>AtomicEndReservoirSession\<close>, step by step\<close>

text \<open>
  The instructions of one call: the lookup in the lock map, which copies the mutex and
  holds no lock; \<^verbatim>\<open>Lock()\<close> on the copy; the first critical section, inside
  \<^verbatim>\<open>sessionToReservoirLock.Lock()\<close>, which reads the reservoir's \<^verbatim>\<open>data\<close> and deletes
  the entry of the reservoir map; \<^verbatim>\<open>Unlock()\<close> on the copy; the second critical
  section, inside \<^verbatim>\<open>sessionToSessionLockLock.Lock()\<close>, which deletes the entry of the
  lock map. The local variables are the copy \<^verbatim>\<open>reservoirLock\<close> and \<^verbatim>\<open>data\<close>.
\<close>

datatype end_pc =
  EndLookup | EndLock | EndDeleteReservoir | EndUnlock | EndDeleteLock
  | EndReturned "error + int list"

record end_thread =
  e_pc :: end_pc
  e_sessionID :: uint64
  e_reservoirLock :: RWMutex
  e_data :: "int list"

definition end_call :: "uint64 \<Rightarrow> end_thread" where
  "end_call sessionID =
     \<lparr>e_pc = EndLookup, e_sessionID = sessionID, e_reservoirLock = RWMutex_zero, e_data = []\<rparr>"

fun end_step :: "end_pc \<Rightarrow> end_thread \<Rightarrow> ReservoirState \<Rightarrow> abort + (end_thread \<times> ReservoirState)" where
  "end_step EndLookup t s =
     (case sessionToSessionLock s (e_sessionID t) of
        None \<Rightarrow> Inr (t\<lparr>e_pc := EndReturned (Inl (NotFound (e_sessionID t)))\<rparr>, s)
      | Some m \<Rightarrow> Inr (t\<lparr>e_pc := EndLock, e_reservoirLock := m\<rparr>, s))"
| "end_step EndLock t s =
     (if can_Lock (e_reservoirLock t)
      then Inr (t\<lparr>e_pc := EndDeleteReservoir,
                  e_reservoirLock := (e_reservoirLock t)\<lparr>writer := True\<rparr>\<rparr>, s)
      else Inr (t, s))"
| "end_step EndDeleteReservoir t s =
     (case sessionToReservoir s (e_sessionID t) of
        None \<Rightarrow> Inl NilPointerDereference
      | Some reservoir \<Rightarrow>
          Inr (t\<lparr>e_pc := EndUnlock, e_data := data reservoir\<rparr>,
               s\<lparr>sessionToReservoir := (sessionToReservoir s)(e_sessionID t := None)\<rparr>))"
| "end_step EndUnlock t s =
     Inr (t\<lparr>e_pc := EndDeleteLock, e_reservoirLock := (e_reservoirLock t)\<lparr>writer := False\<rparr>\<rparr>, s)"
| "end_step EndDeleteLock t s =
     Inr (t\<lparr>e_pc := EndReturned (Inr (e_data t))\<rparr>,
          s\<lparr>sessionToSessionLock := (sessionToSessionLock s)(e_sessionID t := None)\<rparr>)"
| "end_step (EndReturned res) t s = Inr (t, s)"

subsection \<open>Creations and ends together\<close>

text \<open>
  Threads that create sessions and threads that end sessions, on one store. Each
  schedule of this model is a schedule of the code: the two map writes of a creation
  run inside \<^verbatim>\<open>sessionToReservoirLock.Lock()\<close>, with
  \<^verbatim>\<open>sessionToSessionLockLock.Lock()\<close> taken inside it, and each critical section of an end
  holds one of these two locks. The code has more schedules than the model: the second
  critical section of an end can also run between the two map writes of a creation.
\<close>

datatype thread = Creating create_thread | Ending end_thread

fun thread_step :: "thread \<Rightarrow> ReservoirState \<Rightarrow> abort + (thread \<times> ReservoirState)" where
  "thread_step (Creating t) s =
     (case create_step (c_pc t) t s of (t1, s1) \<Rightarrow> Inr (Creating t1, s1))"
| "thread_step (Ending t) s =
     (case end_step (e_pc t) t s of
        Inl a \<Rightarrow> Inl a
      | Inr (t1, s1) \<Rightarrow> Inr (Ending t1, s1))"

fun schedule :: "nat list \<Rightarrow> thread list \<Rightarrow> ReservoirState \<Rightarrow> abort + (thread list \<times> ReservoirState)" where
  "schedule [] ts s = Inr (ts, s)"
| "schedule (i # is) ts s =
     (if i < length ts then
        (case thread_step (ts ! i) s of
           Inl a \<Rightarrow> Inl a
         | Inr (t1, s1) \<Rightarrow> schedule is (ts[i := t1]) s1)
      else schedule is ts s)"

section \<open>Notions used to state the properties\<close>

text \<open>A reservoir created from the empty slice, after \<open>i\<close> integers were offered to it.\<close>

definition empty_session :: "int \<Rightarrow> Reservoir" where
  "empty_session i = \<lparr>data = [], k = 0, n = i\<rparr>"

text \<open>
  The state in which session 1, begun with the empty slice, is the only session and
  has been offered \<open>MaxInt\<close> integers.
\<close>

definition full_session_state :: ReservoirState where
  "full_session_state =
     \<lparr>sessionToReservoir = [1 \<mapsto> empty_session MaxInt],
      sessionToSessionLock = [1 \<mapsto> RWMutex_zero], nextSessionID = 2\<rparr>"

text \<open>
  \<open>m\<close> rounds of beginning a session with the empty slice and ending it at once, where
  \<open>c\<close> is the identifier the first round receives; and what these calls return. No two
  of these sessions exist at the same time.
\<close>

fun begin_end_rounds :: "nat \<Rightarrow> uint64 \<Rightarrow> call list" where
  "begin_end_rounds 0 c = []"
| "begin_end_rounds (Suc m) c = CallBegin [] # CallEnd c # begin_end_rounds m (c + 1)"

fun rounds_replies :: "nat \<Rightarrow> uint64 \<Rightarrow> reply list" where
  "rounds_replies 0 c = []"
| "rounds_replies (Suc m) c = Began c None # Ended (Inr []) # rounds_replies m (c + 1)"

section \<open>Arithmetic of \<^verbatim>\<open>int\<close>\<close>

lemma wrap_int_id: "MinInt \<le> x \<Longrightarrow> x \<le> MaxInt \<Longrightarrow> wrap_int x = x"
  by (simp add: wrap_int_def MinInt_def MaxInt_def)

lemma int_add_1_below_max: "0 \<le> x \<Longrightarrow> x < MaxInt \<Longrightarrow> int_add x 1 = x + 1"
  unfolding int_add_def by (rule wrap_int_id) (simp_all add: MinInt_def MaxInt_def)

lemma int_add_1_at_max: "int_add MaxInt 1 = MinInt"
  by (simp add: int_add_def wrap_int_def MinInt_def MaxInt_def)

lemma int_add_1_positive:
  assumes "0 \<le> x" and "x \<le> MaxInt" and "0 < int_add x 1"
  shows "x < MaxInt"
proof (rule ccontr)
  assume "\<not> x < MaxInt"
  with assms(2) have "x = MaxInt" by simp
  with assms(3) show False by (simp add: int_add_1_at_max MinInt_def)
qed

section \<open>The operations of the session store, case by case\<close>

lemma Update_absent:
  "sessionToSessionLock s sessionID = None \<Longrightarrow>
   AtomicUpdateReservoir s seed sessionID v = Inr (Some (NotFound sessionID), s)"
  by (simp add: AtomicUpdateReservoir_def)

lemma Update_error:
  "AtomicUpdateReservoir s seed sessionID v = Inr (Some e, s1) \<Longrightarrow>
   sessionToSessionLock s sessionID = None \<and> e = NotFound sessionID \<and> s1 = s"
  by (auto simp: AtomicUpdateReservoir_def Let_def split: option.splits if_splits sum.splits)

lemma rand_Intn_range: "rand_Intn seed m = Inr j \<Longrightarrow> 0 \<le> j \<and> j < m"
  by (auto simp: rand_Intn_def split: if_splits)

lemma rand_Intn_positive: "0 < m \<Longrightarrow> rand_Intn seed m = Inr (int seed mod m)"
  by (simp add: rand_Intn_def)

lemma rand_Intn_abort: "m \<le> 0 \<Longrightarrow> rand_Intn seed m = Inl IntnInvalidArgument"
  by (simp add: rand_Intn_def)

lemma Update_present:
  assumes lk: "sessionToSessionLock s sessionID = Some m" "can_Lock m"
    and rv: "sessionToReservoir s sessionID = Some r" "wf_reservoir r"
    and draw: "rand_Intn seed (int_add (n r) 1) = Inr j"
  shows "AtomicUpdateReservoir s seed sessionID v =
           Inr (None, s\<lparr>sessionToReservoir := (sessionToReservoir s)(sessionID \<mapsto>
                  r\<lparr>n := n r + 1, data := (if j < k r then (data r)[nat j := v] else data r)\<rparr>)\<rparr>)"
    and "0 \<le> j" and "j < n r + 1"
proof -
  from rv(2) have len: "int (length (data r)) = k r" and kn: "k r \<le> n r" and nmax: "n r \<le> MaxInt"
    by (simp_all add: wf_reservoir_def)
  from len kn have n0: "0 \<le> n r" by linarith
  from rand_Intn_range [OF draw] have j: "0 \<le> j" "j < int_add (n r) 1" by simp_all
  then have "0 < int_add (n r) 1" by linarith
  with n0 nmax have "n r < MaxInt" by (rule int_add_1_positive)
  with n0 have inc: "int_add (n r) 1 = n r + 1" by (rule int_add_1_below_max)
  show "0 \<le> j" by fact
  show "j < n r + 1" using j(2) inc by simp
  have inb: "j < k r \<Longrightarrow> nat j < length (data r)" using len j(1) by linarith
  show "AtomicUpdateReservoir s seed sessionID v =
           Inr (None, s\<lparr>sessionToReservoir := (sessionToReservoir s)(sessionID \<mapsto>
                  r\<lparr>n := n r + 1, data := (if j < k r then (data r)[nat j := v] else data r)\<rparr>)\<rparr>)"
    using lk rv(1) draw inc j(1) inb by (simp add: AtomicUpdateReservoir_def Let_def)
qed

lemma End_absent:
  "sessionToSessionLock s sessionID = None \<Longrightarrow>
   AtomicEndReservoirSession s sessionID = Inr (Inl (NotFound sessionID), s)"
  by (simp add: AtomicEndReservoirSession_def)

lemma End_error:
  "AtomicEndReservoirSession s sessionID = Inr (Inl e, s1) \<Longrightarrow>
   sessionToSessionLock s sessionID = None \<and> e = NotFound sessionID \<and> s1 = s"
  by (auto simp: AtomicEndReservoirSession_def Let_def split: option.splits if_splits)

lemma End_present:
  "sessionToSessionLock s sessionID = Some m \<Longrightarrow> can_Lock m \<Longrightarrow>
   sessionToReservoir s sessionID = Some r \<Longrightarrow>
   AtomicEndReservoirSession s sessionID =
     Inr (Inr (data r), s\<lparr>sessionToReservoir := (sessionToReservoir s)(sessionID := None),
                           sessionToSessionLock := (sessionToSessionLock s)(sessionID := None)\<rparr>)"
  by (simp add: AtomicEndReservoirSession_def Let_def)

lemma Create_result:
  "AtomicCreateReservoir xs s =
     (nextSessionID s,
      s\<lparr>sessionToReservoir := (sessionToReservoir s)(nextSessionID s \<mapsto>
           \<lparr>data = xs, k = int (length xs), n = int (length xs)\<rparr>),
        sessionToSessionLock := (sessionToSessionLock s)(nextSessionID s \<mapsto> RWMutex_zero),
        nextSessionID := nextSessionID s + 1\<rparr>)"
  by (simp add: AtomicCreateReservoir_def AtomicGetSessionIDAndIncrement_def Let_def)

lemma can_Lock_zero: "can_Lock RWMutex_zero"
  by (simp add: can_Lock_def RWMutex_zero_def)

lemma wf_state_present:
  assumes "wf_state s" and "sessionToSessionLock s sessionID = Some m"
  obtains r where "sessionToReservoir s sessionID = Some r" and "wf_reservoir r" and "can_Lock m"
proof -
  from assms have "sessionID \<in> dom (sessionToReservoir s)"
    by (auto simp: wf_state_def same_keys_def)
  then obtain r where r: "sessionToReservoir s sessionID = Some r" by auto
  moreover from assms r have "wf_reservoir r" by (auto simp: wf_state_def)
  moreover from assms have "m = RWMutex_zero" by (auto simp: wf_state_def)
  then have "can_Lock m" by (simp add: can_Lock_zero)
  ultimately show thesis by (rule that)
qed

lemma wf_NewReservoirState: "wf_state NewReservoirState"
  by (simp add: wf_state_def same_keys_def NewReservoirState_def)

lemma wf_Create:
  assumes "wf_state s" and "go_slice xs"
  shows "wf_state (snd (AtomicCreateReservoir xs s))"
  using assms
  by (auto simp: Create_result wf_state_def same_keys_def wf_reservoir_def go_slice_def)

lemma wf_Update:
  assumes "wf_state s" and "AtomicUpdateReservoir s seed sessionID v = Inr (e, s1)"
  shows "wf_state s1"
proof (cases "sessionToSessionLock s sessionID")
  case None
  with assms show ?thesis by (simp add: Update_absent)
next
  case (Some m)
  with assms(1) obtain r where r: "sessionToReservoir s sessionID = Some r" "wf_reservoir r" "can_Lock m"
    by (rule wf_state_present)
  show ?thesis
  proof (cases "rand_Intn seed (int_add (n r) 1)")
    case (Inl a)
    with Some r assms(2) show ?thesis
      by (simp add: AtomicUpdateReservoir_def Let_def)
  next
    case (Inr j)
    note upd = Update_present [OF Some r(3) r(1) r(2) Inr]
    from upd(1) [of v] assms(2) have s1: "s1 = s\<lparr>sessionToReservoir := (sessionToReservoir s)(sessionID \<mapsto>
                  r\<lparr>n := n r + 1, data := (if j < k r then (data r)[nat j := v] else data r)\<rparr>)\<rparr>"
      by simp
    from upd(3) have "n r + 1 \<le> MaxInt"
      using Inr r(2) rand_Intn_range [OF Inr] int_add_1_positive [of "n r"]
      by (simp add: wf_reservoir_def)
    moreover from r(2) have "int (length (data r)) = k r" "k r \<le> n r"
      by (simp_all add: wf_reservoir_def)
    ultimately have "wf_reservoir (r\<lparr>n := n r + 1, data := (if j < k r then (data r)[nat j := v] else data r)\<rparr>)"
      by (simp add: wf_reservoir_def)
    then show ?thesis using assms(1) Some r(1) unfolding s1
      by (auto simp: wf_state_def same_keys_def)
  qed
qed

lemma wf_End:
  assumes "wf_state s" and "AtomicEndReservoirSession s sessionID = Inr (res, s1)"
  shows "wf_state s1"
proof (cases "sessionToSessionLock s sessionID")
  case None
  with assms show ?thesis by (simp add: End_absent)
next
  case (Some m)
  with assms(1) obtain r where r: "sessionToReservoir s sessionID = Some r" "wf_reservoir r" "can_Lock m"
    by (rule wf_state_present)
  from End_present [OF Some r(3) r(1)] assms(2)
  have "s1 = s\<lparr>sessionToReservoir := (sessionToReservoir s)(sessionID := None),
                           sessionToSessionLock := (sessionToSessionLock s)(sessionID := None)\<rparr>"
    by simp
  then show ?thesis using assms(1)
    by (auto simp: wf_state_def same_keys_def split: if_splits)
qed


section \<open>Invariants of runs\<close>

lemma perform_cases:
  assumes "perform c s = Inr (r, s1)"
  obtains (Begin) xs where "c = CallBegin xs" and "s1 = snd (AtomicCreateReservoir xs s)"
      and "r = Began (fst (AtomicCreateReservoir xs s)) None"
  | (Add) sessionID v seed e where "c = CallAdd sessionID v seed"
      and "AtomicUpdateReservoir s seed sessionID v = Inr (e, s1)" and "r = Added e"
  | (End) sessionID res where "c = CallEnd sessionID"
      and "AtomicEndReservoirSession s sessionID = Inr (res, s1)" and "r = Ended res"
proof (cases c)
  case (CallBegin xs)
  with assms have "s1 = snd (AtomicCreateReservoir xs s)"
    and "r = Began (fst (AtomicCreateReservoir xs s)) None"
    by (auto simp: BeginSession_def split: prod.splits)
  with CallBegin show thesis by (rule Begin)
next
  case (CallAdd sessionID v seed)
  with assms obtain e where "AtomicUpdateReservoir s seed sessionID v = Inr (e, s1)" and "r = Added e"
    by (auto simp: AddInteger_def split: sum.splits prod.splits)
  with CallAdd show thesis by (rule Add)
next
  case (CallEnd sessionID)
  with assms obtain res where "AtomicEndReservoirSession s sessionID = Inr (res, s1)" and "r = Ended res"
    by (auto simp: EndSession_def split: sum.splits prod.splits)
  with CallEnd show thesis by (rule End)
qed

lemma run_Cons_Inr:
  assumes "run (c # cs) s = Inr (rs, s2)"
  obtains r s1 rs1 where "perform c s = Inr (r, s1)" and "run cs s1 = Inr (rs1, s2)" and "rs = r # rs1"
  using assms by (auto split: sum.splits prod.splits)

lemma same_keys_Create: "same_keys s \<Longrightarrow> same_keys (snd (AtomicCreateReservoir xs s))"
  by (simp add: Create_result same_keys_def)

lemma same_keys_Update:
  assumes "same_keys s" and "AtomicUpdateReservoir s seed sessionID v = Inr (e, s1)"
  shows "same_keys s1"
proof -
  have "s1 = s \<or> (sessionID \<in> dom (sessionToSessionLock s) \<and>
      (\<exists>r1. s1 = s\<lparr>sessionToReservoir := (sessionToReservoir s)(sessionID \<mapsto> r1)\<rparr>))"
    using assms(2)
    by (auto simp: AtomicUpdateReservoir_def Let_def split: option.splits if_splits sum.splits)
  then show ?thesis
  proof
    assume "s1 = s"
    with assms(1) show ?thesis by simp
  next
    assume "sessionID \<in> dom (sessionToSessionLock s) \<and>
      (\<exists>r1. s1 = s\<lparr>sessionToReservoir := (sessionToReservoir s)(sessionID \<mapsto> r1)\<rparr>)"
    then obtain r1 where mem: "sessionID \<in> dom (sessionToSessionLock s)"
      and s1: "s1 = s\<lparr>sessionToReservoir := (sessionToReservoir s)(sessionID \<mapsto> r1)\<rparr>"
      by blast
    from mem have "insert sessionID (dom (sessionToSessionLock s)) = dom (sessionToSessionLock s)"
      by (rule insert_absorb)
    with assms(1) show ?thesis by (simp add: s1 same_keys_def)
  qed
qed

lemma same_keys_End:
  assumes "same_keys s" and "AtomicEndReservoirSession s sessionID = Inr (res, s1)"
  shows "same_keys s1"
proof -
  have "s1 = s \<or> s1 = s\<lparr>sessionToReservoir := (sessionToReservoir s)(sessionID := None),
                           sessionToSessionLock := (sessionToSessionLock s)(sessionID := None)\<rparr>"
    using assms(2)
    by (auto simp: AtomicEndReservoirSession_def Let_def split: option.splits if_splits)
  then show ?thesis
  proof
    assume "s1 = s"
    with assms(1) show ?thesis by simp
  next
    assume "s1 = s\<lparr>sessionToReservoir := (sessionToReservoir s)(sessionID := None),
                   sessionToSessionLock := (sessionToSessionLock s)(sessionID := None)\<rparr>"
    with assms(1) show ?thesis by (simp add: same_keys_def)
  qed
qed

lemma same_keys_perform:
  assumes "same_keys s" and "perform c s = Inr (r, s1)"
  shows "same_keys s1"
  using assms(2)
proof (cases rule: perform_cases)
  case (Begin xs)
  with assms(1) show ?thesis by (simp add: same_keys_Create)
next
  case (Add sessionID v seed e)
  with assms(1) show ?thesis by (blast intro: same_keys_Update)
next
  case (End sessionID res)
  with assms(1) show ?thesis by (blast intro: same_keys_End)
qed

lemma same_keys_run: "same_keys s \<Longrightarrow> run cs s = Inr (rs, s1) \<Longrightarrow> same_keys s1"
proof (induction cs arbitrary: s rs)
  case Nil
  then show ?case by simp
next
  case (Cons c cs)
  from Cons.prems(2) obtain r s' rs' where "perform c s = Inr (r, s')" and "run cs s' = Inr (rs', s1)"
    by (rule run_Cons_Inr)
  with Cons.prems(1) Cons.IH show ?case by (blast intro: same_keys_perform)
qed

lemma same_keys_NewReservoirState: "same_keys NewReservoirState"
  by (simp add: same_keys_def NewReservoirState_def)

lemma wf_perform:
  assumes "wf_state s" and "go_call c" and "perform c s = Inr (r, s1)"
  shows "wf_state s1"
  using assms(3)
proof (cases rule: perform_cases)
  case (Begin xs)
  with assms(1,2) show ?thesis by (simp add: wf_Create)
next
  case (Add sessionID v seed e)
  with assms(1) show ?thesis by (blast intro: wf_Update)
next
  case (End sessionID res)
  with assms(1) show ?thesis by (blast intro: wf_End)
qed

lemma wf_run: "wf_state s \<Longrightarrow> \<forall>c\<in>set cs. go_call c \<Longrightarrow> run cs s = Inr (rs, s1) \<Longrightarrow> wf_state s1"
proof (induction cs arbitrary: s rs)
  case Nil
  then show ?case by simp
next
  case (Cons c cs)
  from Cons.prems(3) obtain r s' rs' where "perform c s = Inr (r, s')" and "run cs s' = Inr (rs', s1)"
    by (rule run_Cons_Inr)
  with Cons.prems(1,2) Cons.IH show ?case by (auto intro: wf_perform)
qed

lemma Update_returns:
  assumes "wf_state s" and "AtomicUpdateReservoir s seed sessionID v = Inr (e, s1)"
  obtains (absent) "sessionToSessionLock s sessionID = None" and "e = Some (NotFound sessionID)" and "s1 = s"
  | (present) r j where "sessionToReservoir s sessionID = Some r" and "wf_reservoir r"
      and "rand_Intn seed (int_add (n r) 1) = Inr j" and "0 \<le> j" and "j < n r + 1" and "e = None"
      and "s1 = s\<lparr>sessionToReservoir := (sessionToReservoir s)(sessionID \<mapsto>
                  r\<lparr>n := n r + 1, data := (if j < k r then (data r)[nat j := v] else data r)\<rparr>)\<rparr>"
proof (cases "sessionToSessionLock s sessionID")
  case None
  with assms(2) show thesis by (auto simp: Update_absent intro: absent)
next
  case (Some m)
  with assms(1) obtain r where r: "sessionToReservoir s sessionID = Some r" "wf_reservoir r" "can_Lock m"
    by (rule wf_state_present)
  show thesis
  proof (cases "rand_Intn seed (int_add (n r) 1)")
    case (Inl a)
    with Some r assms(2) show thesis
      by (simp add: AtomicUpdateReservoir_def Let_def)
  next
    case (Inr j)
    note upd = Update_present [OF Some r(3) r(1) r(2) Inr]
    from upd(1) [of v] assms(2) have "e = None"
      and "s1 = s\<lparr>sessionToReservoir := (sessionToReservoir s)(sessionID \<mapsto>
                  r\<lparr>n := n r + 1, data := (if j < k r then (data r)[nat j := v] else data r)\<rparr>)\<rparr>"
      by simp_all
    with r(1,2) Inr upd(2,3) show thesis by (rule present)
  qed
qed

lemma Update_keeps_session:
  assumes "wf_state s" and "AtomicUpdateReservoir s seed sid v = Inr (e, s1)"
    and "sessionToReservoir s sessionID = Some r"
  shows "\<exists>r1. sessionToReservoir s1 sessionID = Some r1 \<and> length (data r1) = length (data r) \<and>
           k r1 = k r \<and> n r \<le> n r1"
  using assms(1,2)
proof (cases rule: Update_returns)
  case absent
  with assms(3) show ?thesis by simp
next
  case (present r' j)
  show ?thesis
  proof (cases "sid = sessionID")
    case True
    with present(1) assms(3) have "r' = r" by simp
    with present(7) True show ?thesis by simp
  next
    case False
    with present(7) assms(3) show ?thesis by simp
  qed
qed

section \<open>Runs in pieces\<close>

lemma run_append:
  "run (cs @ ds) s =
     (case run cs s of
        Inl a \<Rightarrow> Inl a
      | Inr (rs, s1) \<Rightarrow>
          (case run ds s1 of
             Inl a \<Rightarrow> Inl a
           | Inr (rs1, s2) \<Rightarrow> Inr (rs @ rs1, s2)))"
  by (induction cs arbitrary: s) (auto split: sum.splits prod.splits)

lemma run_append_Inr:
  "run cs s = Inr (rs, s1) \<Longrightarrow> run ds s1 = Inr (rs1, s2) \<Longrightarrow> run (cs @ ds) s = Inr (rs @ rs1, s2)"
  by (simp add: run_append)

lemma run_append_Inl:
  "run cs s = Inr (rs, s1) \<Longrightarrow> run ds s1 = Inl a \<Longrightarrow> run (cs @ ds) s = Inl a"
  by (simp add: run_append)

section \<open>A session with an empty reservoir\<close>

lemma Update_empty_session:
  assumes "sessionToSessionLock s sessionID = Some RWMutex_zero"
    and "sessionToReservoir s sessionID = Some (empty_session i)"
    and "0 \<le> i" and "i < MaxInt"
  shows "AtomicUpdateReservoir s seed sessionID v =
           Inr (None, s\<lparr>sessionToReservoir := (sessionToReservoir s)(sessionID \<mapsto> empty_session (i + 1))\<rparr>)"
proof -
  from assms(3,4) have inc: "int_add i 1 = i + 1" by (rule int_add_1_below_max)
  from assms(3) have "rand_Intn seed (i + 1) = Inr (int seed mod (i + 1))" by (simp add: rand_Intn_def)
  moreover from assms(3) have "0 \<le> int seed mod (i + 1)" by simp
  ultimately show ?thesis using assms(1,2) inc
    by (simp add: AtomicUpdateReservoir_def Let_def can_Lock_zero empty_session_def)
qed

lemma Update_at_MaxInt:
  assumes "sessionToSessionLock s sessionID = Some RWMutex_zero"
    and "sessionToReservoir s sessionID = Some r" and "n r = MaxInt"
  shows "AtomicUpdateReservoir s seed sessionID v = Inl IntnInvalidArgument"
  using assms
  by (simp add: AtomicUpdateReservoir_def Let_def can_Lock_zero int_add_1_at_max rand_Intn_def MinInt_def)

lemma run_adds_empty_session:
  assumes "sessionToSessionLock s sessionID = Some RWMutex_zero"
    and "sessionToReservoir s sessionID = Some (empty_session i)"
    and "0 \<le> i" and "i + int (length adds) \<le> MaxInt"
  shows "run (map (\<lambda>(v, seed). CallAdd sessionID v seed) adds) s =
           Inr (map (\<lambda>a. Added None) adds,
                s\<lparr>sessionToReservoir := (sessionToReservoir s)
                     (sessionID \<mapsto> empty_session (i + int (length adds)))\<rparr>)"
  using assms
proof (induction adds arbitrary: s i)
  case Nil
  then have "(sessionToReservoir s)(sessionID \<mapsto> empty_session i) = sessionToReservoir s"
    by (simp add: fun_upd_idem)
  then show ?case by simp
next
  case (Cons a adds)
  obtain v seed where a: "a = (v, seed)" by (cases a)
  let ?s1 = "s\<lparr>sessionToReservoir := (sessionToReservoir s)(sessionID \<mapsto> empty_session (i + 1))\<rparr>"
  from Cons.prems have "i < MaxInt" by simp
  with Cons.prems have step: "AtomicUpdateReservoir s seed sessionID v = Inr (None, ?s1)"
    by (simp add: Update_empty_session)
  let ?s2 = "s\<lparr>sessionToReservoir := (sessionToReservoir s)
                     (sessionID \<mapsto> empty_session (i + int (length (a # adds))))\<rparr>"
  have "run (map (\<lambda>(v, seed). CallAdd sessionID v seed) adds) ?s1 =
           Inr (map (\<lambda>a. Added None) adds,
                ?s1\<lparr>sessionToReservoir := (sessionToReservoir ?s1)
                     (sessionID \<mapsto> empty_session (i + 1 + int (length adds)))\<rparr>)"
    using Cons.prems by (intro Cons.IH) simp_all
  moreover have "?s1\<lparr>sessionToReservoir := (sessionToReservoir ?s1)
                     (sessionID \<mapsto> empty_session (i + 1 + int (length adds)))\<rparr> = ?s2"
    by (simp add: add.assoc)
  ultimately have rest: "run (map (\<lambda>(v, seed). CallAdd sessionID v seed) adds) ?s1 =
           Inr (map (\<lambda>a. Added None) adds, ?s2)"
    by simp
  from step have "perform (CallAdd sessionID v seed) s = Inr (Added None, ?s1)"
    by (simp add: AddInteger_def)
  with rest have "run (CallAdd sessionID v seed # map (\<lambda>(v, seed). CallAdd sessionID v seed) adds) s =
      Inr (Added None # map (\<lambda>a. Added None) adds, ?s2)"
    by simp
  moreover have "map (\<lambda>(v, seed). CallAdd sessionID v seed) (a # adds) =
      CallAdd sessionID v seed # map (\<lambda>(v, seed). CallAdd sessionID v seed) adds"
    by (simp add: a)
  moreover have "map (\<lambda>a. Added None) (a # adds) = Added None # map (\<lambda>a. Added None) adds"
    by simp
  ultimately show ?case by (simp only:)
qed

section \<open>Reaching the largest \<^verbatim>\<open>int\<close>\<close>

lemma Begin_empty:
  "perform (CallBegin []) s =
     Inr (Began (nextSessionID s) None,
          s\<lparr>sessionToReservoir := (sessionToReservoir s)(nextSessionID s \<mapsto> empty_session 0),
            sessionToSessionLock := (sessionToSessionLock s)(nextSessionID s \<mapsto> RWMutex_zero),
            nextSessionID := nextSessionID s + 1\<rparr>)"
  by (simp add: BeginSession_def Create_result empty_session_def)

lemma run_Begin_empty_adds:
  assumes "int (length adds) \<le> MaxInt"
  shows "run (CallBegin [] # map (\<lambda>(v, seed). CallAdd (nextSessionID s) v seed) adds) s =
     Inr (Began (nextSessionID s) None # map (\<lambda>a. Added None) adds,
          s\<lparr>sessionToReservoir := (sessionToReservoir s)
                (nextSessionID s \<mapsto> empty_session (int (length adds))),
            sessionToSessionLock := (sessionToSessionLock s)(nextSessionID s \<mapsto> RWMutex_zero),
            nextSessionID := nextSessionID s + 1\<rparr>)"
proof -
  let ?id = "nextSessionID s"
  let ?s1 = "s\<lparr>sessionToReservoir := (sessionToReservoir s)(?id \<mapsto> empty_session 0),
            sessionToSessionLock := (sessionToSessionLock s)(?id \<mapsto> RWMutex_zero),
            nextSessionID := ?id + 1\<rparr>"
  have "run (map (\<lambda>(v, seed). CallAdd ?id v seed) adds) ?s1 =
           Inr (map (\<lambda>a. Added None) adds,
                ?s1\<lparr>sessionToReservoir := (sessionToReservoir ?s1)
                     (?id \<mapsto> empty_session (0 + int (length adds)))\<rparr>)"
    using assms by (intro run_adds_empty_session) simp_all
  then have "run (map (\<lambda>(v, seed). CallAdd ?id v seed) adds) ?s1 =
           Inr (map (\<lambda>a. Added None) adds,
                s\<lparr>sessionToReservoir := (sessionToReservoir s)(?id \<mapsto> empty_session (int (length adds))),
                  sessionToSessionLock := (sessionToSessionLock s)(?id \<mapsto> RWMutex_zero),
                  nextSessionID := ?id + 1\<rparr>)"
    by simp
  with Begin_empty [of s] show ?thesis by (simp del: perform.simps)
qed

lemma replicate_adds:
  "replicate m (CallAdd sessionID v seed) = map (\<lambda>(v, seed). CallAdd sessionID v seed) (replicate m (v, seed))"
  by simp

lemma reach_full_session_state:
  "run (CallBegin [] # replicate (nat MaxInt) (CallAdd 1 0 0)) NewReservoirState =
     Inr (Began 1 None # replicate (nat MaxInt) (Added None), full_session_state)"
proof -
  have "int (length (replicate (nat MaxInt) (0::int, 0::nat))) \<le> MaxInt"
    by (simp add: MaxInt_def)
  from run_Begin_empty_adds [OF this, of NewReservoirState]
  have "run (CallBegin [] # map (\<lambda>(v, seed). CallAdd 1 v seed) (replicate (nat MaxInt) (0, 0))) NewReservoirState =
     Inr (Began 1 None # map (\<lambda>a. Added None) (replicate (nat MaxInt) (0::int, 0::nat)), full_session_state)"
    by (simp add: NewReservoirState_def full_session_state_def MaxInt_def del: run.simps map_replicate)
  then show ?thesis by (simp only: replicate_adds map_replicate)
qed

lemma full_session_state_aborts:
  "AtomicUpdateReservoir full_session_state seed 1 v = Inl IntnInvalidArgument"
  by (rule Update_at_MaxInt [where r = "empty_session MaxInt"])
    (simp_all add: full_session_state_def empty_session_def)

lemma Update_below_MaxInt:
  assumes "wf_state s" and "sessionToSessionLock s sessionID = Some m"
    and "sessionToReservoir s sessionID = Some r" and "n r < MaxInt"
  obtains j where "int_add (n r) 1 = n r + 1" and "rand_Intn seed (n r + 1) = Inr j"
    and "0 \<le> j" and "j < n r + 1" and "j < k r \<Longrightarrow> nat j < length (data r)"
    and "AtomicUpdateReservoir s seed sessionID v =
           Inr (None, s\<lparr>sessionToReservoir := (sessionToReservoir s)(sessionID \<mapsto>
                  r\<lparr>n := n r + 1, data := (if j < k r then (data r)[nat j := v] else data r)\<rparr>)\<rparr>)"
proof -
  from assms(1,2) obtain r' where r': "sessionToReservoir s sessionID = Some r'" "wf_reservoir r'" "can_Lock m"
    by (rule wf_state_present)
  with assms(3) have wf: "wf_reservoir r" by simp
  then have len: "int (length (data r)) = k r" and kn: "k r \<le> n r"
    by (simp_all add: wf_reservoir_def)
  then have n0: "0 \<le> n r" by linarith
  from n0 assms(4) have inc: "int_add (n r) 1 = n r + 1" by (rule int_add_1_below_max)
  from n0 have draw: "rand_Intn seed (n r + 1) = Inr (int seed mod (n r + 1))"
    by (simp add: rand_Intn_def)
  then have draw': "rand_Intn seed (int_add (n r) 1) = Inr (int seed mod (n r + 1))"
    by (simp add: inc)
  note upd = Update_present [OF assms(2) r'(3) assms(3) wf draw']
  have "int seed mod (n r + 1) < k r \<Longrightarrow> nat (int seed mod (n r + 1)) < length (data r)"
    using len upd(2) by linarith
  with inc draw upd(2,3) show thesis using upd(1) by (rule that)
qed

lemma End_empty_session:
  assumes "sessionToSessionLock s sessionID = Some RWMutex_zero"
    and "sessionToReservoir s sessionID = Some (empty_session i)"
  shows "AtomicEndReservoirSession s sessionID =
     Inr (Inr [], s\<lparr>sessionToReservoir := (sessionToReservoir s)(sessionID := None),
                    sessionToSessionLock := (sessionToSessionLock s)(sessionID := None)\<rparr>)"
  using End_present [OF assms(1) can_Lock_zero assms(2)] by (simp add: empty_session_def)

section \<open>The identifiers of a run\<close>

lemma perform_nextSessionID:
  assumes "perform c s = Inr (r, s1)"
  shows "(\<exists>xs. c = CallBegin xs \<and> r = Began (nextSessionID s) None \<and>
            nextSessionID s1 = nextSessionID s + 1) \<or>
         ((\<forall>xs. c \<noteq> CallBegin xs) \<and> began_ids [r] = [] \<and> nextSessionID s1 = nextSessionID s)"
  using assms
proof (cases rule: perform_cases)
  case (Begin xs)
  then show ?thesis by (simp add: Create_result)
next
  case (Add sessionID v seed e)
  from Add(2) have "nextSessionID s1 = nextSessionID s"
    by (auto simp: AtomicUpdateReservoir_def Let_def split: option.splits if_splits sum.splits)
  with Add(1,3) show ?thesis by simp
next
  case (End sessionID res)
  from End(2) have "nextSessionID s1 = nextSessionID s"
    by (auto simp: AtomicEndReservoirSession_def Let_def split: option.splits if_splits)
  with End(1,3) show ?thesis by simp
qed

lemma began_ids_Cons: "began_ids (r # rs) = began_ids [r] @ began_ids rs"
  by (cases r) simp_all

lemma run_ids:
  "run cs s = Inr (rs, s1) \<Longrightarrow>
   began_ids rs = map (\<lambda>i. nextSessionID s + word_of_nat i) [0..<length (began_ids rs)] \<and>
   nextSessionID s1 = nextSessionID s + word_of_nat (length (began_ids rs))"
proof (induction cs arbitrary: s rs)
  case Nil
  then show ?case by simp
next
  case (Cons c cs)
  from Cons.prems obtain r s' rs' where step: "perform c s = Inr (r, s')"
    and rest: "run cs s' = Inr (rs', s1)" and rs: "rs = r # rs'"
    by (rule run_Cons_Inr)
  let ?m = "length (began_ids rs')"
  from Cons.IH [OF rest]
  have ids: "began_ids rs' = map (\<lambda>i. nextSessionID s' + word_of_nat i) [0..<?m]"
    and nxt: "nextSessionID s1 = nextSessionID s' + word_of_nat ?m"
    by simp_all
  from perform_nextSessionID [OF step] show ?case
  proof
    assume "\<exists>xs. c = CallBegin xs \<and> r = Began (nextSessionID s) None \<and>
            nextSessionID s' = nextSessionID s + 1"
    then have r: "r = Began (nextSessionID s) None" and s': "nextSessionID s' = nextSessionID s + 1"
      by auto
    have "began_ids rs = nextSessionID s # began_ids rs'" by (simp add: rs r)
    moreover have "map (\<lambda>i. nextSessionID s + word_of_nat i) [0..<Suc ?m] =
        nextSessionID s # map (\<lambda>i. nextSessionID s' + word_of_nat i) [0..<?m]"
      by (simp only: map_upt_Suc) (simp add: s' add.assoc)
    ultimately have "began_ids rs = map (\<lambda>i. nextSessionID s + word_of_nat i) [0..<length (began_ids rs)]"
      using ids by simp
    moreover have "nextSessionID s1 = nextSessionID s + word_of_nat (length (began_ids rs))"
      using nxt by (simp add: rs r s' add.assoc)
    ultimately show ?thesis by simp
  next
    assume "(\<forall>xs. c \<noteq> CallBegin xs) \<and> began_ids [r] = [] \<and> nextSessionID s' = nextSessionID s"
    then have "began_ids rs = began_ids rs'" and "nextSessionID s' = nextSessionID s"
      using began_ids_Cons [of r rs'] by (simp_all add: rs)
    with ids nxt show ?thesis by simp
  qed
qed

lemma word_of_nat_strict_mono:
  assumes "i < j" and "j < 2 ^ 64"
  shows "(word_of_nat i :: uint64) < word_of_nat j"
proof -
  from assms have "take_bit 64 i = i" and "take_bit 64 j = j"
    by (simp_all add: take_bit_nat_eq_self)
  with assms(1) show ?thesis by (simp add: word_of_nat_less_iff)
qed

lemma ids_sorted:
  assumes "m < 2 ^ 64"
  shows "sorted_wrt (<) (map (\<lambda>i. word_of_nat (Suc i) :: uint64) [0..<m])"
proof -
  have "word_of_nat (Suc i) < (word_of_nat (Suc j) :: uint64)" if "i < j" and "j < m" for i j
    using that assms by (intro word_of_nat_strict_mono) simp_all
  then show ?thesis by (simp add: sorted_wrt_iff_nth_less)
qed

lemma run_ids_initial:
  assumes "run cs NewReservoirState = Inr (rs, s)"
  shows "began_ids rs = map (\<lambda>i. word_of_nat (Suc i)) [0..<length (began_ids rs)]"
    and "nextSessionID s = word_of_nat (Suc (length (began_ids rs)))"
  using run_ids [OF assms] by (simp_all add: NewReservoirState_def)

lemma ids_not_sorted_after_wrap:
  "\<not> sorted_wrt (<) (map (\<lambda>i. word_of_nat (Suc i) :: uint64) [0..<2 ^ 64])"
proof
  define m :: nat where "m = 2 ^ 64"
  assume "sorted_wrt (<) (map (\<lambda>i. word_of_nat (Suc i) :: uint64) [0..<2 ^ 64])"
  then have sorted: "sorted_wrt (<) (map (\<lambda>i. word_of_nat (Suc i) :: uint64) [0..<m])"
    by (simp only: m_def)
  have m: "0 < m - 1" "m - 1 < m" by (simp_all add: m_def)
  then have "m - 1 < length (map (\<lambda>i. word_of_nat (Suc i) :: uint64) [0..<m])"
    by simp
  with sorted m(1)
  have "map (\<lambda>i. word_of_nat (Suc i) :: uint64) [0..<m] ! 0 <
        map (\<lambda>i. word_of_nat (Suc i) :: uint64) [0..<m] ! (m - 1)"
    by (rule sorted_wrt_nth_less)
  with m have "(word_of_nat (Suc 0) :: uint64) < word_of_nat (Suc (m - 1))"
    by simp
  moreover have "Suc (m - 1) = 2 ^ 64" by (simp add: m_def)
  ultimately have "(1 :: uint64) < word_of_nat (2 ^ 64)" by simp
  moreover have "(word_of_nat (2 ^ 64) :: uint64) = 0"
    by (simp add: word_of_nat_eq_0_iff)
  ultimately have "(1 :: uint64) < 0" by (simp only:)
  then show False by simp
qed

text \<open>Rounds of beginning a session and ending it: one session at a time.\<close>

lemma one_round:
  "run [CallBegin [], CallEnd c]
       \<lparr>sessionToReservoir = Map.empty, sessionToSessionLock = Map.empty, nextSessionID = c\<rparr> =
     Inr ([Began c None, Ended (Inr [])],
          \<lparr>sessionToReservoir = Map.empty, sessionToSessionLock = Map.empty, nextSessionID = c + 1\<rparr>)"
  by (simp add: BeginSession_def EndSession_def Create_result AtomicEndReservoirSession_def
      Let_def can_Lock_zero)

lemma run_rounds:
  "run (begin_end_rounds m c)
       \<lparr>sessionToReservoir = Map.empty, sessionToSessionLock = Map.empty, nextSessionID = c\<rparr> =
     Inr (rounds_replies m c,
          \<lparr>sessionToReservoir = Map.empty, sessionToSessionLock = Map.empty,
           nextSessionID = c + word_of_nat m\<rparr>)"
proof (induction m arbitrary: c)
  case 0
  then show ?case by simp
next
  case (Suc m)
  have "run ([CallBegin [], CallEnd c] @ begin_end_rounds m (c + 1))
       \<lparr>sessionToReservoir = Map.empty, sessionToSessionLock = Map.empty, nextSessionID = c\<rparr> =
     Inr ([Began c None, Ended (Inr [])] @ rounds_replies m (c + 1),
          \<lparr>sessionToReservoir = Map.empty, sessionToSessionLock = Map.empty,
           nextSessionID = c + 1 + word_of_nat m\<rparr>)"
    using one_round [of c] Suc [of "c + 1"] by (rule run_append_Inr)
  then show ?case by (simp add: add.assoc del: run.simps)
qed

lemma began_ids_rounds:
  "began_ids (rounds_replies m c) = map (\<lambda>i. c + word_of_nat i) [0..<m]"
proof (induction m arbitrary: c)
  case 0
  then show ?case by simp
next
  case (Suc m)
  have "map (\<lambda>i. c + word_of_nat i) [0..<Suc m] = c # map (\<lambda>i. c + 1 + word_of_nat i) [0..<m]"
    by (simp only: map_upt_Suc) (simp add: add.assoc)
  with Suc [of "c + 1"] show ?case by simp
qed

lemma rounds_wrap:
  "run (begin_end_rounds (2 ^ 64) 1) NewReservoirState = Inr (rounds_replies (2 ^ 64) 1, NewReservoirState)"
proof -
  have "(1 :: uint64) + word_of_nat (2 ^ 64) = 1" by (simp add: word_of_nat_eq_0_iff)
  with run_rounds [of "2 ^ 64" 1] show ?thesis by (simp only: NewReservoirState_def)
qed

lemma rounds_not_sorted: "\<not> sorted_wrt (<) (began_ids (rounds_replies (2 ^ 64) 1))"
proof -
  have "began_ids (rounds_replies (2 ^ 64) 1) = map (\<lambda>i. (1 :: uint64) + word_of_nat i) [0..<2 ^ 64]"
    by (rule began_ids_rounds)
  also have "(\<lambda>i. (1 :: uint64) + word_of_nat i) = (\<lambda>i. word_of_nat (Suc i))" by (rule ext) simp
  finally show ?thesis using ids_not_sorted_after_wrap by (simp only: not_False_eq_True)
qed

section \<open>Sessions that have ended\<close>

lemma End_removes:
  assumes "AtomicEndReservoirSession s sessionID = Inr (Inr d, s1)"
  shows "sessionToSessionLock s sessionID \<noteq> None" and "sessionToSessionLock s1 sessionID = None"
  using assms
  by (auto simp: AtomicEndReservoirSession_def Let_def split: option.splits if_splits)

lemma Update_lock_map:
  "AtomicUpdateReservoir s seed sessionID v = Inr (e, s1) \<Longrightarrow>
   sessionToSessionLock s1 = sessionToSessionLock s"
  by (auto simp: AtomicUpdateReservoir_def Let_def split: option.splits if_splits sum.splits)

lemma End_lock_map:
  "AtomicEndReservoirSession s sessionID = Inr (res, s1) \<Longrightarrow>
   sessionToSessionLock s1 = sessionToSessionLock s \<or>
   sessionToSessionLock s1 = (sessionToSessionLock s)(sessionID := None)"
  by (auto simp: AtomicEndReservoirSession_def Let_def split: option.splits if_splits)

lemma perform_lock_map:
  assumes "perform c s = Inr (r, s1)"
  shows "dom (sessionToSessionLock s1) \<subseteq> dom (sessionToSessionLock s) \<union> set (began_ids [r])"
  using assms
proof (cases rule: perform_cases)
  case (Begin xs)
  then show ?thesis by (auto simp: Create_result)
next
  case (Add sessionID v seed e)
  from Update_lock_map [OF Add(2)] show ?thesis by simp
next
  case (End sessionID res)
  from End_lock_map [OF End(2)] show ?thesis by (auto split: if_splits)
qed

lemma began_ids_append: "began_ids (rs @ rs1) = began_ids rs @ began_ids rs1"
proof (induction rs)
  case Nil
  then show ?case by simp
next
  case (Cons r rs)
  then show ?case using began_ids_Cons [of r "rs @ rs1"] began_ids_Cons [of r rs] by simp
qed

lemma run_lock_map:
  "run cs s = Inr (rs, s1) \<Longrightarrow>
   dom (sessionToSessionLock s1) \<subseteq> dom (sessionToSessionLock s) \<union> set (began_ids rs)"
proof (induction cs arbitrary: s rs)
  case Nil
  then show ?case by simp
next
  case (Cons c cs)
  from Cons.prems obtain r s' rs' where step: "perform c s = Inr (r, s')"
    and rest: "run cs s' = Inr (rs', s1)" and rs: "rs = r # rs'"
    by (rule run_Cons_Inr)
  from Cons.IH [OF rest] perform_lock_map [OF step]
  have "dom (sessionToSessionLock s1) \<subseteq>
      dom (sessionToSessionLock s) \<union> (set (began_ids [r]) \<union> set (began_ids rs'))"
    by blast
  also have "set (began_ids [r]) \<union> set (began_ids rs') = set (began_ids rs)"
    using began_ids_Cons [of r rs'] by (simp add: rs)
  finally show ?case .
qed

lemma stays_absent:
  assumes "sessionToSessionLock s sessionID = None" and "run cs s = Inr (rs, s1)"
    and "sessionID \<notin> set (began_ids rs)"
  shows "sessionToSessionLock s1 sessionID = None"
  using run_lock_map [OF assms(2)] assms(1,3) by blast

lemma ids_distinct:
  assumes "run cs NewReservoirState = Inr (rs, s)" and "length (began_ids rs) < 2 ^ 64"
  shows "distinct (began_ids rs)"
proof -
  from ids_sorted [OF assms(2)] run_ids_initial(1) [OF assms(1)]
  have "sorted_wrt (<) (began_ids rs)" by simp
  then show ?thesis by (simp add: strict_sorted_iff)
qed

lemma ended_stays_absent:
  assumes first: "run (cs @ [CallEnd sessionID]) NewReservoirState = Inr (rs @ [Ended (Inr d)], s1)"
    and later: "run cs1 s1 = Inr (rs1, s2)"
    and few: "length (began_ids (rs @ rs1)) < 2 ^ 64"
  shows "sessionID \<notin> set (began_ids rs1)" and "sessionToSessionLock s2 sessionID = None"
proof -
  from first obtain rs' s' rs'' where before: "run cs NewReservoirState = Inr (rs', s')"
    and last: "run [CallEnd sessionID] s' = Inr (rs'', s1)" and split: "rs @ [Ended (Inr d)] = rs' @ rs''"
    by (auto simp: run_append split: sum.splits prod.splits)
  from last obtain res where ended: "AtomicEndReservoirSession s' sessionID = Inr (res, s1)"
    and rs'': "rs'' = [Ended res]"
    by (auto simp: EndSession_def split: sum.splits prod.splits)
  from split rs'' have "rs' = rs" and "res = Inr d" by simp_all
  with ended have ended: "AtomicEndReservoirSession s' sessionID = Inr (Inr d, s1)" by simp
  from End_removes [OF ended] have was: "sessionID \<in> dom (sessionToSessionLock s')"
    and gone: "sessionToSessionLock s1 sessionID = None"
    by auto
  from run_lock_map [OF before] was have begun: "sessionID \<in> set (began_ids rs)"
    by (auto simp: NewReservoirState_def \<open>rs' = rs\<close>)
  from first later have whole: "run ((cs @ [CallEnd sessionID]) @ cs1) NewReservoirState =
      Inr ((rs @ [Ended (Inr d)]) @ rs1, s2)"
    by (rule run_append_Inr)
  have "began_ids ((rs @ [Ended (Inr d)]) @ rs1) = began_ids rs @ began_ids rs1"
    by (simp add: began_ids_append)
  with few ids_distinct [OF whole] have "distinct (began_ids rs @ began_ids rs1)"
    by (simp add: began_ids_append)
  with begun show absent: "sessionID \<notin> set (began_ids rs1)" by auto
  from gone later absent show "sessionToSessionLock s2 sessionID = None" by (rule stays_absent)
qed

section \<open>Calls that do not return\<close>

lemma End_returns:
  assumes "wf_state s"
  shows "AtomicEndReservoirSession s sessionID \<noteq> Inl a"
proof (cases "sessionToSessionLock s sessionID")
  case None
  then show ?thesis by (simp add: End_absent)
next
  case (Some m)
  with assms obtain r where "sessionToReservoir s sessionID = Some r" and "can_Lock m"
    by (rule wf_state_present)
  with Some show ?thesis by (simp add: End_present)
qed

lemma Update_aborts:
  assumes "wf_state s" and "AtomicUpdateReservoir s seed sessionID v = Inl a"
  shows "a = IntnInvalidArgument \<and> (\<exists>r. sessionToReservoir s sessionID = Some r \<and> n r = MaxInt)"
proof (cases "sessionToSessionLock s sessionID")
  case None
  with assms(2) show ?thesis by (simp add: Update_absent)
next
  case (Some m)
  with assms(1) obtain r where r: "sessionToReservoir s sessionID = Some r" "wf_reservoir r"
    by (rule wf_state_present)
  from assms(1) Some have m: "m = RWMutex_zero" by (auto simp: wf_state_def)
  have "\<not> n r < MaxInt"
  proof
    assume "n r < MaxInt"
    with assms(1) Some r(1) obtain j s1 where "AtomicUpdateReservoir s seed sessionID v = Inr (None, s1)"
      by (rule Update_below_MaxInt) blast
    with assms(2) show False by simp
  qed
  with r(2) have "n r = MaxInt" by (simp add: wf_reservoir_def)
  moreover from Some m r(1) this have "AtomicUpdateReservoir s seed sessionID v = Inl IntnInvalidArgument"
    by (intro Update_at_MaxInt) simp_all
  ultimately show ?thesis using assms(2) r(1) by simp
qed

section \<open>The begin request\<close>

lemma BeginSession_result:
  "BeginSession xs s =
     ((nextSessionID s, None),
      s\<lparr>sessionToReservoir := (sessionToReservoir s)(nextSessionID s \<mapsto>
           \<lparr>data = xs, k = int (length xs), n = int (length xs)\<rparr>),
        sessionToSessionLock := (sessionToSessionLock s)(nextSessionID s \<mapsto> RWMutex_zero),
        nextSessionID := nextSessionID s + 1\<rparr>)"
  by (simp add: BeginSession_def Create_result)

lemma beginHandler_nonempty:
  assumes "Reservoir req \<noteq> []"
  shows "fst (beginHandler False req NewResponseWriter s) =
     \<lparr>wroteHeader = True, status = StatusOK, body = [SessionIDJSON (nextSessionID s)]\<rparr>"
  using assms
  by (simp add: beginHandler_def dispatch_begin_def JobBeginSession_Process_def BeginSession_result
      Write_def WriteHeader_def NewResponseWriter_def MISSING_INPUT_RESERVOIR_def Let_def)

lemma beginHandler_empty:
  assumes "Reservoir req = []"
  shows "fst (beginHandler False req NewResponseWriter s) =
     \<lparr>wroteHeader = True, status = StatusBadRequest,
      body = [Text ''Missing input: initial K integers for reservoir.'',
              SessionIDJSON (nextSessionID s)]\<rparr>"
  using assms
  by (simp add: beginHandler_def dispatch_begin_def JobBeginSession_Process_def BeginSession_result
      http_Error_def Write_def WriteHeader_def NewResponseWriter_def MISSING_INPUT_RESERVOIR_def Let_def)

section \<open>One call at a time, step by step\<close>

lemma create_alone:
  "create_schedule [0, 0, 0] [create_call xs] s =
     ([\<lparr>c_pc = CreateReturned, c_reservoir = xs, c_sessionID = fst (AtomicCreateReservoir xs s)\<rparr>],
      snd (AtomicCreateReservoir xs s))"
  by (simp add: create_call_def Create_result Let_def)

lemma update_alone:
  assumes "\<forall>m. sessionToSessionLock s sessionID = Some m \<longrightarrow> can_Lock m"
  shows "case update_schedule [0, 0, 0, 0, 0, 0, 0, 0] [update_call sessionID v seed] s of
           Inl a \<Rightarrow> AtomicUpdateReservoir s seed sessionID v = Inl a
         | Inr (ts, s1) \<Rightarrow>
             (\<exists>t e. ts = [t] \<and> u_pc t = UpdReturned e \<and>
                    AtomicUpdateReservoir s seed sessionID v = Inr (e, s1))"
proof (cases "sessionToSessionLock s sessionID")
  case None
  then show ?thesis
    by (simp add: update_call_def AtomicUpdateReservoir_def)
next
  case (Some m)
  with assms have m: "can_Lock m" by simp
  show ?thesis
  proof (cases "sessionToReservoir s sessionID")
    case None
    with Some m show ?thesis
      by (simp add: update_call_def AtomicUpdateReservoir_def deref_def)
  next
    case r: (Some r)
    show ?thesis
    proof (cases "rand_Intn seed (int_add (n r) 1)")
      case (Inl a)
      with Some m r show ?thesis
        by (simp add: update_call_def AtomicUpdateReservoir_def deref_def store_def)
    next
      case (Inr j)
      with Some m r show ?thesis
        by (simp add: update_call_def AtomicUpdateReservoir_def deref_def store_def Let_def)
    qed
  qed
qed

lemma end_alone:
  assumes "\<forall>m. sessionToSessionLock s sessionID = Some m \<longrightarrow> can_Lock m"
  shows "case schedule [0, 0, 0, 0, 0] [Ending (end_call sessionID)] s of
           Inl a \<Rightarrow> AtomicEndReservoirSession s sessionID = Inl a
         | Inr (ts, s1) \<Rightarrow>
             (\<exists>t res. ts = [Ending t] \<and> e_pc t = EndReturned res \<and>
                      AtomicEndReservoirSession s sessionID = Inr (res, s1))"
proof (cases "sessionToSessionLock s sessionID")
  case None
  then show ?thesis by (simp add: end_call_def AtomicEndReservoirSession_def)
next
  case (Some m)
  with assms have m: "can_Lock m" by simp
  show ?thesis
  proof (cases "sessionToReservoir s sessionID")
    case None
    with Some m show ?thesis by (simp add: end_call_def AtomicEndReservoirSession_def)
  next
    case r: (Some r)
    with Some m show ?thesis by (simp add: end_call_def AtomicEndReservoirSession_def Let_def)
  qed
qed

lemma creations_one_after_the_other:
  "create_schedule [0, 0, 0, 1, 1, 1] [create_call [1, 2, 3], create_call [7]] NewReservoirState =
     ([\<lparr>c_pc = CreateReturned, c_reservoir = [1, 2, 3], c_sessionID = 1\<rparr>,
       \<lparr>c_pc = CreateReturned, c_reservoir = [7], c_sessionID = 2\<rparr>],
      \<lparr>sessionToReservoir = [1 \<mapsto> \<lparr>data = [1, 2, 3], k = 3, n = 3\<rparr>,
                             2 \<mapsto> \<lparr>data = [7], k = 1, n = 1\<rparr>],
       sessionToSessionLock = [1 \<mapsto> RWMutex_zero, 2 \<mapsto> RWMutex_zero], nextSessionID = 3\<rparr>)"
  by (simp add: create_call_def NewReservoirState_def Let_def)

lemma updates_one_after_the_other:
  "update_schedule [0, 0, 0, 0, 0, 0, 0, 0, 1, 1, 1, 1, 1, 1, 1, 1]
     [update_call 1 10 0, update_call 1 20 1]
     \<lparr>sessionToReservoir = [1 \<mapsto> \<lparr>data = [1, 2, 3], k = 3, n = 3\<rparr>],
      sessionToSessionLock = [1 \<mapsto> RWMutex_zero], nextSessionID = 2\<rparr> =
   Inr ([\<lparr>u_pc = UpdReturned None, u_sessionID = 1, u_integerToAdd = 10, u_seed = 0,
          u_reservoirLock = RWMutex_zero, u_reservoir = Some 1, u_loaded = 3, u_randomIndex = 0\<rparr>,
         \<lparr>u_pc = UpdReturned None, u_sessionID = 1, u_integerToAdd = 20, u_seed = 1,
          u_reservoirLock = RWMutex_zero, u_reservoir = Some 1, u_loaded = 4, u_randomIndex = 1\<rparr>],
        \<lparr>sessionToReservoir = [1 \<mapsto> \<lparr>data = [10, 20, 3], k = 3, n = 5\<rparr>],
         sessionToSessionLock = [1 \<mapsto> RWMutex_zero], nextSessionID = 2\<rparr>)"
  by (simp add: update_call_def can_Lock_def RWMutex_zero_def deref_def store_def rand_Intn_def
      int_add_def wrap_int_def)

lemma capacity_zero:
  assumes "wf_state s" and "sessionToSessionLock s sessionID = Some m"
    and "sessionToReservoir s sessionID = Some r" and "k r = 0"
  shows "data r = []"
    and "n r < MaxInt \<Longrightarrow> AtomicUpdateReservoir s seed sessionID v =
           Inr (None, s\<lparr>sessionToReservoir := (sessionToReservoir s)(sessionID \<mapsto> r\<lparr>n := n r + 1\<rparr>)\<rparr>)"
    and "AtomicEndReservoirSession s sessionID =
           Inr (Inr [], s\<lparr>sessionToReservoir := (sessionToReservoir s)(sessionID := None),
                          sessionToSessionLock := (sessionToSessionLock s)(sessionID := None)\<rparr>)"
proof -
  from assms(1,2) obtain r' where r': "sessionToReservoir s sessionID = Some r'" "wf_reservoir r'" "can_Lock m"
    by (rule wf_state_present)
  with assms(3,4) show empty: "data r = []" by (simp add: wf_reservoir_def)
  from End_present [OF assms(2) r'(3) assms(3)] empty
  show "AtomicEndReservoirSession s sessionID =
           Inr (Inr [], s\<lparr>sessionToReservoir := (sessionToReservoir s)(sessionID := None),
                          sessionToSessionLock := (sessionToSessionLock s)(sessionID := None)\<rparr>)"
    by simp
  assume "n r < MaxInt"
  with assms(1-3) obtain j where "0 \<le> j"
    and "AtomicUpdateReservoir s seed sessionID v =
           Inr (None, s\<lparr>sessionToReservoir := (sessionToReservoir s)(sessionID \<mapsto>
                  r\<lparr>n := n r + 1, data := (if j < k r then (data r)[nat j := v] else data r)\<rparr>)\<rparr>)"
    by (rule Update_below_MaxInt)
  with assms(4) show "AtomicUpdateReservoir s seed sessionID v =
           Inr (None, s\<lparr>sessionToReservoir := (sessionToReservoir s)(sessionID \<mapsto> r\<lparr>n := n r + 1\<rparr>)\<rparr>)"
    by simp
qed

section \<open>Two calls whose steps alternate\<close>

text \<open>
  Whatever the state and the arguments: two creations whose steps alternate return the
  same identifier, and two updates of one session whose steps alternate add one to \<open>n\<close>,
  not two.
\<close>

lemma interleaved_creations:
  "map c_sessionID (fst (create_schedule [0, 1, 0, 1, 0, 1] [create_call xs, create_call ys] s)) =
     [nextSessionID s, nextSessionID s]"
  by (simp add: create_call_def Let_def)

lemma interleaved_updates:
  assumes "sessionToSessionLock s sessionID = Some RWMutex_zero"
    and "sessionToReservoir s sessionID = Some r" and "wf_reservoir r" and "n r < MaxInt"
  shows "\<exists>ts s1 r1. update_schedule [0, 1, 0, 1, 0, 1, 0, 1, 0, 1, 0, 1, 0, 1, 0, 1]
            [update_call sessionID v seed, update_call sessionID v1 seed1] s = Inr (ts, s1) \<and>
          map u_pc ts = [UpdReturned None, UpdReturned None] \<and>
          sessionToReservoir s1 sessionID = Some r1 \<and> n r1 = n r + 1"
proof -
  from assms(3) have len: "int (length (data r)) = k r" and kn: "k r \<le> n r"
    by (simp_all add: wf_reservoir_def)
  then have n0: "0 \<le> n r" by linarith
  from n0 assms(4) have inc: "int_add (n r) 1 = n r + 1" by (rule int_add_1_below_max)
  have j: "0 \<le> int a mod (n r + 1)" "int a mod (n r + 1) < k r \<Longrightarrow> nat (int a mod (n r + 1)) < length (data r)" for a
    using n0 len by (simp_all add: nat_less_iff)
  show ?thesis
    using assms(1,2) inc n0 j
    by (simp add: update_call_def can_Lock_def RWMutex_zero_def deref_def store_def rand_Intn_def)
qed

section \<open>Calls that run one after the other\<close>

text \<open>
  What holds of the store when no two calls overlap: \<open>run\<close> performs each call from
  start to finish before the next one. Calls that overlap are the subject of the step
  models; what they break is shown with the claims.
\<close>

text \<open>After a run the reservoir map and the lock map have the same keys.\<close>

lemma maps_have_same_keys:
  "run cs NewReservoirState = Inr (rs, s) \<Longrightarrow>
   dom (sessionToReservoir s) = dom (sessionToSessionLock s)"
  using same_keys_run [OF same_keys_NewReservoirState] by (simp add: same_keys_def)

lemma scenario_123:
  "run [CallBegin [1, 2, 3], CallAdd 1 99 1, CallEnd 1, CallAdd 1 5 0] NewReservoirState =
     Inr ([Began 1 None, Added None, Ended (Inr [1, 99, 3]), Added (Some (NotFound 1))],
          \<lparr>sessionToReservoir = Map.empty, sessionToSessionLock = Map.empty, nextSessionID = 2\<rparr>)"
  by (simp add: NewReservoirState_def BeginSession_def AddInteger_def EndSession_def
      Create_result AtomicUpdateReservoir_def AtomicEndReservoirSession_def Let_def
      can_Lock_zero rand_Intn_def int_add_def wrap_int_def)

lemma scenario_two_sessions:
  "run [CallBegin [1, 2, 3], CallBegin [], CallAdd 1 99 1, CallEnd 2] NewReservoirState =
     Inr ([Began 1 None, Began 2 None, Added None, Ended (Inr [])],
          \<lparr>sessionToReservoir = [1 \<mapsto> \<lparr>data = [1, 99, 3], k = 3, n = 4\<rparr>],
           sessionToSessionLock = [1 \<mapsto> RWMutex_zero], nextSessionID = 3\<rparr>)"
  by (simp add: NewReservoirState_def BeginSession_def AddInteger_def EndSession_def
      Create_result AtomicUpdateReservoir_def AtomicEndReservoirSession_def Let_def
      can_Lock_zero rand_Intn_def int_add_def wrap_int_def fun_upd_twist)

text \<open>
  After a run whose initial reservoirs are Go slices, each stored reservoir has
  \<open>len(data) = k \<le> n\<close>; a creation stores \<open>k = n = len(initial)\<close>; an update that returns
  keeps the \<open>k\<close> and the length of \<open>data\<close> of every session and does not decrease its \<open>n\<close>.
\<close>

lemma capacity_invariant:
  assumes "\<forall>c\<in>set cs. go_call c" and "run cs NewReservoirState = Inr (rs, s)"
    and "sessionToReservoir s sessionID = Some r"
  shows "int (length (data r)) = k r \<and> k r \<le> n r \<and>
    (\<forall>xs. sessionToReservoir (snd (AtomicCreateReservoir xs s)) (fst (AtomicCreateReservoir xs s)) =
            Some \<lparr>data = xs, k = int (length xs), n = int (length xs)\<rparr>) \<and>
    (\<forall>seed sid v e s1. AtomicUpdateReservoir s seed sid v = Inr (e, s1) \<longrightarrow>
       (\<exists>r1. sessionToReservoir s1 sessionID = Some r1 \<and> length (data r1) = length (data r) \<and>
             k r1 = k r \<and> n r \<le> n r1))"
proof -
  from wf_NewReservoirState assms(1,2) have wf: "wf_state s" by (rule wf_run)
  with assms(3) have "wf_reservoir r" by (auto simp: wf_state_def)
  then have "int (length (data r)) = k r" and "k r \<le> n r" by (simp_all add: wf_reservoir_def)
  moreover have "\<forall>xs. sessionToReservoir (snd (AtomicCreateReservoir xs s)) (fst (AtomicCreateReservoir xs s)) =
            Some \<lparr>data = xs, k = int (length xs), n = int (length xs)\<rparr>"
    by (simp add: Create_result)
  moreover have "\<forall>seed sid v e s1. AtomicUpdateReservoir s seed sid v = Inr (e, s1) \<longrightarrow>
       (\<exists>r1. sessionToReservoir s1 sessionID = Some r1 \<and> length (data r1) = length (data r) \<and>
             k r1 = k r \<and> n r \<le> n r1)"
    using wf assms(3) by (blast intro: Update_keeps_session)
  ultimately show ?thesis by blast
qed

lemma scenario_begin_add:
  "run [CallBegin [1, 2, 3], CallAdd 1 99 1] NewReservoirState =
     Inr ([Began 1 None, Added None],
          \<lparr>sessionToReservoir = [1 \<mapsto> \<lparr>data = [1, 99, 3], k = 3, n = 4\<rparr>],
           sessionToSessionLock = [1 \<mapsto> RWMutex_zero], nextSessionID = 2\<rparr>)"
  by (simp add: NewReservoirState_def BeginSession_def AddInteger_def
      Create_result AtomicUpdateReservoir_def Let_def
      can_Lock_zero rand_Intn_def int_add_def wrap_int_def)

text \<open>
  The not-found error of a call run alone: it is returned exactly when the identifier
  has no entry in the lock map, and then the store is left as it was. In a well-formed
  store an end returns, and an update returns unless \<open>n\<close> is the largest \<^verbatim>\<open>int\<close>. After an
  end has succeeded in a run from the initial state with fewer than \<open>2 ^ 64\<close> creations,
  no later creation of the run returns the identifier and its updates and ends return the
  not-found error.
\<close>

lemma not_found_exactly_when_absent:
  "(AtomicUpdateReservoir s seed sessionID v = Inr (Some e, s1) \<longleftrightarrow>
      sessionToSessionLock s sessionID = None \<and> e = NotFound sessionID \<and> s1 = s) \<and>
   (AtomicEndReservoirSession s sessionID = Inr (Inl e, s1) \<longleftrightarrow>
      sessionToSessionLock s sessionID = None \<and> e = NotFound sessionID \<and> s1 = s) \<and>
   (wf_state s \<longrightarrow>
      AtomicEndReservoirSession s sessionID \<noteq> Inl a \<and>
      (AtomicUpdateReservoir s seed sessionID v = Inl a \<longrightarrow>
         a = IntnInvalidArgument \<and> (\<exists>r. sessionToReservoir s sessionID = Some r \<and> n r = MaxInt))) \<and>
   (run (cs @ [CallEnd sessionID]) NewReservoirState = Inr (rs @ [Ended (Inr d)], sa) \<and>
    run cs1 sa = Inr (rs1, sb) \<and> length (began_ids (rs @ rs1)) < 2 ^ 64 \<longrightarrow>
      sessionID \<notin> set (began_ids rs1) \<and>
      AtomicUpdateReservoir sb seed sessionID v = Inr (Some (NotFound sessionID), sb) \<and>
      AtomicEndReservoirSession sb sessionID = Inr (Inl (NotFound sessionID), sb))"
proof (intro conjI impI)
  show "AtomicUpdateReservoir s seed sessionID v = Inr (Some e, s1) \<longleftrightarrow>
      sessionToSessionLock s sessionID = None \<and> e = NotFound sessionID \<and> s1 = s"
    using Update_error [of s seed sessionID v e s1] Update_absent [of s sessionID seed v] by auto
  show "AtomicEndReservoirSession s sessionID = Inr (Inl e, s1) \<longleftrightarrow>
      sessionToSessionLock s sessionID = None \<and> e = NotFound sessionID \<and> s1 = s"
    using End_error [of s sessionID e s1] End_absent [of s sessionID] by auto
next
  assume "wf_state s"
  then show "AtomicEndReservoirSession s sessionID \<noteq> Inl a" by (rule End_returns)
next
  assume "wf_state s" and "AtomicUpdateReservoir s seed sessionID v = Inl a"
  then have "a = IntnInvalidArgument \<and> (\<exists>r. sessionToReservoir s sessionID = Some r \<and> n r = MaxInt)"
    by (rule Update_aborts)
  then show "a = IntnInvalidArgument" and "\<exists>r. sessionToReservoir s sessionID = Some r \<and> n r = MaxInt"
    by simp_all
next
  assume "run (cs @ [CallEnd sessionID]) NewReservoirState = Inr (rs @ [Ended (Inr d)], sa) \<and>
    run cs1 sa = Inr (rs1, sb) \<and> length (began_ids (rs @ rs1)) < 2 ^ 64"
  then have first: "run (cs @ [CallEnd sessionID]) NewReservoirState = Inr (rs @ [Ended (Inr d)], sa)"
    and later: "run cs1 sa = Inr (rs1, sb)" and few: "length (began_ids (rs @ rs1)) < 2 ^ 64"
    by simp_all
  note gone = ended_stays_absent [OF first later few]
  from gone(1) show "sessionID \<notin> set (began_ids rs1)" .
  from gone(2) show "AtomicUpdateReservoir sb seed sessionID v = Inr (Some (NotFound sessionID), sb)"
    by (rule Update_absent)
  from gone(2) show "AtomicEndReservoirSession sb sessionID = Inr (Inl (NotFound sessionID), sb)"
    by (rule End_absent)
qed

section \<open>The claims of the specification\<close>

text \<open>
  Claim C1, as amended: for every session present in the store whose counter \<open>n\<close> is
  below the largest \<^verbatim>\<open>int\<close>, \<^verbatim>\<open>AtomicUpdateReservoir\<close> increments \<open>n\<close> by exactly one,
  draws an index \<open>j\<close> of \<open>[0, n)\<close> by \<^verbatim>\<open>rand.Intn\<close> of the incremented \<open>n\<close>, writes \<open>data[j] = value\<close>
  exactly when \<open>j < k\<close> and leaves \<open>data\<close> as it is otherwise; \<open>k\<close>, the other sessions,
  the lock map and the counter of identifiers stay as they are. Every index of the range
  is the draw for some seed. That the draw is uniform is a property of \<^verbatim>\<open>rand.Intn\<close>
  and is not modelled.
\<close>

theorem update_effect:
  assumes "wf_state s" and "sessionToSessionLock s sessionID = Some m"
    and "sessionToReservoir s sessionID = Some r" and "n r < MaxInt"
  shows "(\<exists>j. rand_Intn seed (n r + 1) = Inr j \<and> 0 \<le> j \<and> j < n r + 1 \<and>
      AtomicUpdateReservoir s seed sessionID v =
        Inr (None, s\<lparr>sessionToReservoir := (sessionToReservoir s)(sessionID \<mapsto>
               r\<lparr>n := n r + 1, data := (if j < k r then (data r)[nat j := v] else data r)\<rparr>)\<rparr>)) \<and>
    (\<forall>j. 0 \<le> j \<and> j < n r + 1 \<longrightarrow> rand_Intn (nat j) (n r + 1) = Inr j)"
proof
  from assms show "\<exists>j. rand_Intn seed (n r + 1) = Inr j \<and> 0 \<le> j \<and> j < n r + 1 \<and>
      AtomicUpdateReservoir s seed sessionID v =
        Inr (None, s\<lparr>sessionToReservoir := (sessionToReservoir s)(sessionID \<mapsto>
               r\<lparr>n := n r + 1, data := (if j < k r then (data r)[nat j := v] else data r)\<rparr>)\<rparr>)"
    by (rule Update_below_MaxInt) blast
  show "\<forall>j. 0 \<le> j \<and> j < n r + 1 \<longrightarrow> rand_Intn (nat j) (n r + 1) = Inr j"
    by (auto simp: rand_Intn_def)
qed

theorem update_effect_witness:
  "rand_Intn 1 (n \<lparr>data = [1, 2, 3], k = 3, n = 3\<rparr> + 1) = Inr 1 \<and>
   AtomicUpdateReservoir
     \<lparr>sessionToReservoir = [1 \<mapsto> \<lparr>data = [1, 2, 3], k = 3, n = 3\<rparr>],
      sessionToSessionLock = [1 \<mapsto> RWMutex_zero], nextSessionID = 2\<rparr> 1 1 99 =
     Inr (None, \<lparr>sessionToReservoir = [1 \<mapsto> \<lparr>data = [1, 99, 3], k = 3, n = 4\<rparr>],
                 sessionToSessionLock = [1 \<mapsto> RWMutex_zero], nextSessionID = 2\<rparr>)"
proof -
  let ?s = "\<lparr>sessionToReservoir = [1 \<mapsto> \<lparr>data = [1, 2, 3], k = 3, n = 3\<rparr>],
      sessionToSessionLock = [(1::uint64) \<mapsto> RWMutex_zero], nextSessionID = 2\<rparr>"
  have "run [CallBegin [1, 2, 3]] NewReservoirState = Inr ([Began 1 None], ?s)"
    by (simp add: NewReservoirState_def BeginSession_def Create_result)
  moreover have "\<forall>c\<in>set [CallBegin [1, 2, 3]]. go_call c" by (simp add: go_slice_def MaxInt_def)
  ultimately have wf: "wf_state ?s" using wf_NewReservoirState by (blast intro: wf_run)
  have draw: "rand_Intn 1 (n \<lparr>data = [1, 2, 3], k = 3, n = 3\<rparr> + 1) = Inr 1"
    by (simp add: rand_Intn_def)
  from update_effect [OF wf, of 1 RWMutex_zero "\<lparr>data = [1, 2, 3], k = 3, n = 3\<rparr>" 1 99]
  obtain j where "rand_Intn 1 (n \<lparr>data = [1, 2, 3], k = 3, n = 3\<rparr> + 1) = Inr j"
    and "AtomicUpdateReservoir ?s 1 1 99 =
        Inr (None, ?s\<lparr>sessionToReservoir := (sessionToReservoir ?s)(1 \<mapsto>
               \<lparr>data = [1, 2, 3], k = 3, n = 3\<rparr>\<lparr>n := n \<lparr>data = [1, 2, 3], k = 3, n = 3\<rparr> + 1,
                 data := (if j < k \<lparr>data = [1, 2, 3], k = 3, n = 3\<rparr>
                          then (data \<lparr>data = [1, 2, 3], k = 3, n = 3\<rparr>)[nat j := 99]
                          else data \<lparr>data = [1, 2, 3], k = 3, n = 3\<rparr>)\<rparr>)\<rparr>)"
    by (auto simp: MaxInt_def)
  with draw show ?thesis by simp
qed

text \<open>
  Claim C1 as stated fails for a session whose counter has reached the largest
  \<^verbatim>\<open>int\<close>: the session is present in a well-formed store, and the update neither draws
  an index nor returns; it panics in \<^verbatim>\<open>rand.Intn\<close>.
\<close>

theorem update_effect_counterexample:
  "wf_state full_session_state \<and>
   sessionToSessionLock full_session_state 1 = Some RWMutex_zero \<and>
   sessionToReservoir full_session_state 1 = Some \<lparr>data = [], k = 0, n = MaxInt\<rparr> \<and>
   AtomicUpdateReservoir full_session_state 7 1 42 = Inl IntnInvalidArgument"
proof -
  have "\<forall>c\<in>set (CallBegin [] # replicate (nat MaxInt) (CallAdd 1 0 0)). go_call c"
    by (auto simp: go_slice_def MaxInt_def)
  with wf_NewReservoirState have "wf_state full_session_state"
    using reach_full_session_state by (rule wf_run)
  then show ?thesis
    by (simp add: full_session_state_aborts) (simp add: full_session_state_def empty_session_def)
qed

text \<open>
  Claim C2 says that an update or an end fails with the not-found error exactly when the
  identifier has no entry in the store, and that the component has no other failure
  mode. \<^verbatim>\<open>AtomicEndReservoirSession\<close> deletes the reservoir entry in one critical section
  and the lock entry in a later one, and \<^verbatim>\<open>AtomicUpdateReservoir\<close> looks the session up
  in the lock map. Here the end of session 1 has taken three steps: the reservoir entry
  is deleted and the lock entry is still there. An update of session 1 that runs now
  finds the lock, gets a nil reservoir and panics when it dereferences it: a failure that
  is not the not-found error.
\<close>

theorem update_during_end_panics:
  "schedule [0, 0, 0] [Ending (end_call 1)]
     \<lparr>sessionToReservoir = [1 \<mapsto> \<lparr>data = [1, 2, 3], k = 3, n = 3\<rparr>],
      sessionToSessionLock = [1 \<mapsto> RWMutex_zero], nextSessionID = 2\<rparr> =
   Inr ([Ending \<lparr>e_pc = EndUnlock, e_sessionID = 1,
                 e_reservoirLock = \<lparr>writer = True, readerCount = 0\<rparr>, e_data = [1, 2, 3]\<rparr>],
        \<lparr>sessionToReservoir = Map.empty, sessionToSessionLock = [1 \<mapsto> RWMutex_zero],
         nextSessionID = 2\<rparr>) \<and>
   AtomicUpdateReservoir
     \<lparr>sessionToReservoir = Map.empty, sessionToSessionLock = [1 \<mapsto> RWMutex_zero],
      nextSessionID = 2\<rparr> 0 1 5 = Inl NilPointerDereference"
  by (simp add: end_call_def can_Lock_def RWMutex_zero_def AtomicUpdateReservoir_def)

text \<open>
  Claim C3 says that \<open>len(data) = k\<close> and \<open>n \<ge> k\<close> hold for the whole life of a session
  and that \<open>n\<close> never decreases. The mutex an update locks is a copy (claim C4), so
  updates of one session overlap. In this schedule of three updates of session 1, begun
  with \<open>[1, 2, 3]\<close>, the first update reads \<open>n = 3\<close> and waits; the other two run from
  start to finish and leave \<open>n = 5\<close>; the first one then writes back \<open>3 + 1\<close> and returns.
  All three return \<^verbatim>\<open>nil\<close>, and \<open>n\<close> has gone from 5 down to 4.
\<close>

theorem concurrent_updates_decrease_n:
  "update_schedule [0, 0, 0, 0, 1, 1, 1, 1, 1, 1, 1, 1, 2, 2, 2, 2, 2, 2, 2, 2]
     [update_call 1 10 3, update_call 1 20 3, update_call 1 30 4]
     \<lparr>sessionToReservoir = [1 \<mapsto> \<lparr>data = [1, 2, 3], k = 3, n = 3\<rparr>],
      sessionToSessionLock = [1 \<mapsto> RWMutex_zero], nextSessionID = 2\<rparr> =
   Inr ([\<lparr>u_pc = UpdStoreN, u_sessionID = 1, u_integerToAdd = 10, u_seed = 3,
          u_reservoirLock = \<lparr>writer = True, readerCount = 0\<rparr>, u_reservoir = Some 1,
          u_loaded = 3, u_randomIndex = 0\<rparr>,
         \<lparr>u_pc = UpdReturned None, u_sessionID = 1, u_integerToAdd = 20, u_seed = 3,
          u_reservoirLock = RWMutex_zero, u_reservoir = Some 1, u_loaded = 3, u_randomIndex = 3\<rparr>,
         \<lparr>u_pc = UpdReturned None, u_sessionID = 1, u_integerToAdd = 30, u_seed = 4,
          u_reservoirLock = RWMutex_zero, u_reservoir = Some 1, u_loaded = 4, u_randomIndex = 4\<rparr>],
        \<lparr>sessionToReservoir = [1 \<mapsto> \<lparr>data = [1, 2, 3], k = 3, n = 5\<rparr>],
         sessionToSessionLock = [1 \<mapsto> RWMutex_zero], nextSessionID = 2\<rparr>) \<and>
   update_schedule [0, 0, 0, 0]
     [\<lparr>u_pc = UpdStoreN, u_sessionID = 1, u_integerToAdd = 10, u_seed = 3,
       u_reservoirLock = \<lparr>writer = True, readerCount = 0\<rparr>, u_reservoir = Some 1,
       u_loaded = 3, u_randomIndex = 0\<rparr>,
      \<lparr>u_pc = UpdReturned None, u_sessionID = 1, u_integerToAdd = 20, u_seed = 3,
       u_reservoirLock = RWMutex_zero, u_reservoir = Some 1, u_loaded = 3, u_randomIndex = 3\<rparr>,
      \<lparr>u_pc = UpdReturned None, u_sessionID = 1, u_integerToAdd = 30, u_seed = 4,
       u_reservoirLock = RWMutex_zero, u_reservoir = Some 1, u_loaded = 4, u_randomIndex = 4\<rparr>]
     \<lparr>sessionToReservoir = [1 \<mapsto> \<lparr>data = [1, 2, 3], k = 3, n = 5\<rparr>],
      sessionToSessionLock = [1 \<mapsto> RWMutex_zero], nextSessionID = 2\<rparr> =
   Inr ([\<lparr>u_pc = UpdReturned None, u_sessionID = 1, u_integerToAdd = 10, u_seed = 3,
          u_reservoirLock = RWMutex_zero, u_reservoir = Some 1, u_loaded = 3, u_randomIndex = 3\<rparr>,
         \<lparr>u_pc = UpdReturned None, u_sessionID = 1, u_integerToAdd = 20, u_seed = 3,
          u_reservoirLock = RWMutex_zero, u_reservoir = Some 1, u_loaded = 3, u_randomIndex = 3\<rparr>,
         \<lparr>u_pc = UpdReturned None, u_sessionID = 1, u_integerToAdd = 30, u_seed = 4,
          u_reservoirLock = RWMutex_zero, u_reservoir = Some 1, u_loaded = 4, u_randomIndex = 4\<rparr>],
        \<lparr>sessionToReservoir = [1 \<mapsto> \<lparr>data = [1, 2, 3], k = 3, n = 4\<rparr>],
         sessionToSessionLock = [1 \<mapsto> RWMutex_zero], nextSessionID = 2\<rparr>)"
  by (simp add: update_call_def can_Lock_def RWMutex_zero_def deref_def store_def rand_Intn_def
      int_add_def wrap_int_def)

text \<open>
  Claim C4 says that updates of one session that run at the same time are applied one
  at a time, so that \<open>N\<close> of them add \<open>N\<close> to \<open>n\<close>. The code locks a copy of the
  session's mutex, which excludes nobody. In this schedule of two updates of session 1,
  begun with \<open>[1, 2, 3]\<close>, each thread takes a step in turn: both read \<open>n = 3\<close>, both
  write 4, both return \<^verbatim>\<open>nil\<close>, and the final \<open>n\<close> is 4 rather than 5.
\<close>

theorem concurrent_updates_lose_an_increment:
  "update_schedule [0, 1, 0, 1, 0, 1, 0, 1, 0, 1, 0, 1, 0, 1, 0, 1]
     [update_call 1 10 0, update_call 1 20 1]
     \<lparr>sessionToReservoir = [1 \<mapsto> \<lparr>data = [1, 2, 3], k = 3, n = 3\<rparr>],
      sessionToSessionLock = [1 \<mapsto> RWMutex_zero], nextSessionID = 2\<rparr> =
   Inr ([\<lparr>u_pc = UpdReturned None, u_sessionID = 1, u_integerToAdd = 10, u_seed = 0,
          u_reservoirLock = RWMutex_zero, u_reservoir = Some 1, u_loaded = 3, u_randomIndex = 0\<rparr>,
         \<lparr>u_pc = UpdReturned None, u_sessionID = 1, u_integerToAdd = 20, u_seed = 1,
          u_reservoirLock = RWMutex_zero, u_reservoir = Some 1, u_loaded = 3, u_randomIndex = 1\<rparr>],
        \<lparr>sessionToReservoir = [1 \<mapsto> \<lparr>data = [10, 20, 3], k = 3, n = 4\<rparr>],
         sessionToSessionLock = [1 \<mapsto> RWMutex_zero], nextSessionID = 2\<rparr>)"
  by (simp add: update_call_def can_Lock_def RWMutex_zero_def deref_def store_def rand_Intn_def
      int_add_def wrap_int_def)

text \<open>
  Claim C5 says that creations that run at the same time receive pairwise distinct
  identifiers. The code loads the counter and increments it in two separate atomic
  operations, so two creations can both load before either increments. In this schedule
  of two calls, each thread takes a step in turn: both calls return the identifier 1, and
  the second reservoir replaces the first one in the store.
\<close>

theorem concurrent_creations_share_an_identifier:
  "create_schedule [0, 1, 0, 1, 0, 1] [create_call [1, 2, 3], create_call [7]] NewReservoirState =
     ([\<lparr>c_pc = CreateReturned, c_reservoir = [1, 2, 3], c_sessionID = 1\<rparr>,
       \<lparr>c_pc = CreateReturned, c_reservoir = [7], c_sessionID = 1\<rparr>],
      \<lparr>sessionToReservoir = [1 \<mapsto> \<lparr>data = [7], k = 1, n = 1\<rparr>],
       sessionToSessionLock = [1 \<mapsto> RWMutex_zero], nextSessionID = 3\<rparr>)"
  by (simp add: create_call_def NewReservoirState_def Let_def)

text \<open>
  Claim C6, as amended. \<^verbatim>\<open>BeginSession\<close> has no failure mode: for every sequence of
  integers, the empty one included, it returns a \<^verbatim>\<open>nil\<close> error and the new identifier,
  and the store holds a session with \<open>k = n = len(initial)\<close> under it. The handler of
  the begin request answers a request with a well-formed body and a non-empty sequence
  with the status 200 and the identifier, and a request with the empty sequence with the
  status 400 and the message that the input is missing.
\<close>

theorem begin_has_no_failure_mode:
  "(\<exists>s1. BeginSession xs s = ((nextSessionID s, None), s1) \<and>
         sessionToSessionLock s1 (nextSessionID s) = Some RWMutex_zero \<and>
         sessionToReservoir s1 (nextSessionID s) =
           Some \<lparr>data = xs, k = int (length xs), n = int (length xs)\<rparr>) \<and>
   (Reservoir req \<noteq> [] \<longrightarrow>
      fst (beginHandler False req NewResponseWriter s) =
        \<lparr>wroteHeader = True, status = StatusOK, body = [SessionIDJSON (nextSessionID s)]\<rparr>) \<and>
   (Reservoir req = [] \<longrightarrow>
      status (fst (beginHandler False req NewResponseWriter s)) = StatusBadRequest \<and>
      hd (body (fst (beginHandler False req NewResponseWriter s))) =
        Text ''Missing input: initial K integers for reservoir.'')"
  by (simp add: BeginSession_result beginHandler_nonempty beginHandler_empty)

theorem begin_has_no_failure_mode_witness:
  "Reservoir \<lparr>Reservoir = [1, 2, 3], SessionID = 0, IntegerToAdd = 0\<rparr> \<noteq> [] \<and>
   fst (beginHandler False \<lparr>Reservoir = [1, 2, 3], SessionID = 0, IntegerToAdd = 0\<rparr>
          NewResponseWriter NewReservoirState) =
     \<lparr>wroteHeader = True, status = 200, body = [SessionIDJSON 1]\<rparr> \<and>
   BeginSession [] NewReservoirState =
     ((1, None), \<lparr>sessionToReservoir = [1 \<mapsto> \<lparr>data = [], k = 0, n = 0\<rparr>],
                  sessionToSessionLock = [1 \<mapsto> RWMutex_zero], nextSessionID = 2\<rparr>)"
  using begin_has_no_failure_mode
    [of "[]" NewReservoirState "\<lparr>Reservoir = [1, 2, 3], SessionID = 0, IntegerToAdd = 0\<rparr>"]
  by (simp add: NewReservoirState_def StatusOK_def BeginSession_result)

text \<open>
  Claim C6 as stated fails at the handler for the empty sequence: the request is not
  accepted but answered with the status 400, Bad Request.
\<close>

theorem begin_counterexample:
  "status (fst (beginHandler False \<lparr>Reservoir = [], SessionID = 0, IntegerToAdd = 0\<rparr>
                  NewResponseWriter NewReservoirState)) = 400"
  by (simp add: beginHandler_empty StatusBadRequest_def)

text \<open>
  Claim C7, as amended: for a session begun with the empty slice (\<open>k = 0\<close>), each of the
  first \<open>MaxInt\<close> calls of \<^verbatim>\<open>AddInteger\<close> returns \<^verbatim>\<open>nil\<close> and leaves \<open>data\<close> empty,
  while \<open>n\<close> counts the calls; \<^verbatim>\<open>EndSession\<close> then returns the empty slice. The session
  is begun in any state \<open>s\<close>; the values added and the seeds of the draws are arbitrary.
  The last part says the same of one call in any well-formed state \<open>s1\<close>, whatever was
  called before: a session with \<open>k = 0\<close> has no data, an update of it with \<open>n\<close> below
  \<open>MaxInt\<close> returns \<^verbatim>\<open>nil\<close> and changes \<open>n\<close> only, and its end returns the empty slice.
\<close>

theorem empty_reservoir_stays_empty:
  assumes "int (length adds) \<le> MaxInt"
  shows "run (CallBegin [] # map (\<lambda>(v, seed). CallAdd (nextSessionID s) v seed) adds) s =
     Inr (Began (nextSessionID s) None # map (\<lambda>a. Added None) adds,
          s\<lparr>sessionToReservoir := (sessionToReservoir s)
                (nextSessionID s \<mapsto> \<lparr>data = [], k = 0, n = int (length adds)\<rparr>),
            sessionToSessionLock := (sessionToSessionLock s)(nextSessionID s \<mapsto> RWMutex_zero),
            nextSessionID := nextSessionID s + 1\<rparr>) \<and>
   EndSession
     (s\<lparr>sessionToReservoir := (sessionToReservoir s)
                (nextSessionID s \<mapsto> \<lparr>data = [], k = 0, n = int (length adds)\<rparr>),
        sessionToSessionLock := (sessionToSessionLock s)(nextSessionID s \<mapsto> RWMutex_zero),
        nextSessionID := nextSessionID s + 1\<rparr>) (nextSessionID s) =
     Inr (Inr [],
          s\<lparr>sessionToReservoir := (sessionToReservoir s)(nextSessionID s := None),
            sessionToSessionLock := (sessionToSessionLock s)(nextSessionID s := None),
            nextSessionID := nextSessionID s + 1\<rparr>) \<and>
   (\<forall>s1 sessionID m r seed v.
      wf_state s1 \<and> sessionToSessionLock s1 sessionID = Some m \<and>
      sessionToReservoir s1 sessionID = Some r \<and> k r = 0 \<and> n r < MaxInt \<longrightarrow>
        data r = [] \<and>
        AtomicUpdateReservoir s1 seed sessionID v =
          Inr (None, s1\<lparr>sessionToReservoir := (sessionToReservoir s1)(sessionID \<mapsto> r\<lparr>n := n r + 1\<rparr>)\<rparr>) \<and>
        AtomicEndReservoirSession s1 sessionID =
          Inr (Inr [], s1\<lparr>sessionToReservoir := (sessionToReservoir s1)(sessionID := None),
                         sessionToSessionLock := (sessionToSessionLock s1)(sessionID := None)\<rparr>))"
proof -
  have any_state: "\<forall>s1 sessionID m r seed v.
      wf_state s1 \<and> sessionToSessionLock s1 sessionID = Some m \<and>
      sessionToReservoir s1 sessionID = Some r \<and> k r = 0 \<and> n r < MaxInt \<longrightarrow>
        data r = [] \<and>
        AtomicUpdateReservoir s1 seed sessionID v =
          Inr (None, s1\<lparr>sessionToReservoir := (sessionToReservoir s1)(sessionID \<mapsto> r\<lparr>n := n r + 1\<rparr>)\<rparr>) \<and>
        AtomicEndReservoirSession s1 sessionID =
          Inr (Inr [], s1\<lparr>sessionToReservoir := (sessionToReservoir s1)(sessionID := None),
                         sessionToSessionLock := (sessionToSessionLock s1)(sessionID := None)\<rparr>)"
    using capacity_zero by blast
  let ?s1 = "s\<lparr>sessionToReservoir := (sessionToReservoir s)
                (nextSessionID s \<mapsto> empty_session (int (length adds))),
            sessionToSessionLock := (sessionToSessionLock s)(nextSessionID s \<mapsto> RWMutex_zero),
            nextSessionID := nextSessionID s + 1\<rparr>"
  have "AtomicEndReservoirSession ?s1 (nextSessionID s) =
     Inr (Inr [], ?s1\<lparr>sessionToReservoir := (sessionToReservoir ?s1)(nextSessionID s := None),
                    sessionToSessionLock := (sessionToSessionLock ?s1)(nextSessionID s := None)\<rparr>)"
    by (rule End_empty_session [where i = "int (length adds)"]) simp_all
  then have "EndSession ?s1 (nextSessionID s) =
     Inr (Inr [],
          s\<lparr>sessionToReservoir := (sessionToReservoir s)(nextSessionID s := None),
            sessionToSessionLock := (sessionToSessionLock s)(nextSessionID s := None),
            nextSessionID := nextSessionID s + 1\<rparr>)"
    by (simp add: EndSession_def)
  with run_Begin_empty_adds [OF assms, of s]
  have "run (CallBegin [] # map (\<lambda>(v, seed). CallAdd (nextSessionID s) v seed) adds) s =
     Inr (Began (nextSessionID s) None # map (\<lambda>a. Added None) adds,
          s\<lparr>sessionToReservoir := (sessionToReservoir s)
                (nextSessionID s \<mapsto> \<lparr>data = [], k = 0, n = int (length adds)\<rparr>),
            sessionToSessionLock := (sessionToSessionLock s)(nextSessionID s \<mapsto> RWMutex_zero),
            nextSessionID := nextSessionID s + 1\<rparr>) \<and>
   EndSession
     (s\<lparr>sessionToReservoir := (sessionToReservoir s)
                (nextSessionID s \<mapsto> \<lparr>data = [], k = 0, n = int (length adds)\<rparr>),
        sessionToSessionLock := (sessionToSessionLock s)(nextSessionID s \<mapsto> RWMutex_zero),
        nextSessionID := nextSessionID s + 1\<rparr>) (nextSessionID s) =
     Inr (Inr [],
          s\<lparr>sessionToReservoir := (sessionToReservoir s)(nextSessionID s := None),
            sessionToSessionLock := (sessionToSessionLock s)(nextSessionID s := None),
            nextSessionID := nextSessionID s + 1\<rparr>)"
    by (simp only: empty_session_def)
  with any_state show ?thesis by (rule conjI [rotated, THEN conj_assoc [THEN iffD1]])
qed

theorem empty_reservoir_stays_empty_witness:
  "run [CallBegin [], CallAdd 1 10 0, CallAdd 1 20 5] NewReservoirState =
     Inr ([Began 1 None, Added None, Added None],
          \<lparr>sessionToReservoir = [1 \<mapsto> \<lparr>data = [], k = 0, n = 2\<rparr>],
           sessionToSessionLock = [1 \<mapsto> RWMutex_zero], nextSessionID = 2\<rparr>) \<and>
   EndSession
     \<lparr>sessionToReservoir = [1 \<mapsto> \<lparr>data = [], k = 0, n = 2\<rparr>],
      sessionToSessionLock = [1 \<mapsto> RWMutex_zero], nextSessionID = 2\<rparr> 1 =
     Inr (Inr [], \<lparr>sessionToReservoir = Map.empty, sessionToSessionLock = Map.empty, nextSessionID = 2\<rparr>)"
proof -
  have "int (length [(10::int, 0::nat), (20, 5)]) \<le> MaxInt" by (simp add: MaxInt_def)
  from empty_reservoir_stays_empty [OF this, of NewReservoirState]
  have "run (CallBegin [] # map (\<lambda>(v, seed). CallAdd (nextSessionID NewReservoirState) v seed)
               [(10, 0), (20, 5)]) NewReservoirState =
     Inr (Began (nextSessionID NewReservoirState) None # map (\<lambda>a. Added None) [(10::int, 0::nat), (20, 5)],
          NewReservoirState\<lparr>sessionToReservoir := (sessionToReservoir NewReservoirState)
                (nextSessionID NewReservoirState \<mapsto>
                   \<lparr>data = [], k = 0, n = int (length [(10::int, 0::nat), (20, 5)])\<rparr>),
            sessionToSessionLock := (sessionToSessionLock NewReservoirState)
                (nextSessionID NewReservoirState \<mapsto> RWMutex_zero),
            nextSessionID := nextSessionID NewReservoirState + 1\<rparr>)"
    and "EndSession
     (NewReservoirState\<lparr>sessionToReservoir := (sessionToReservoir NewReservoirState)
                (nextSessionID NewReservoirState \<mapsto>
                   \<lparr>data = [], k = 0, n = int (length [(10::int, 0::nat), (20, 5)])\<rparr>),
        sessionToSessionLock := (sessionToSessionLock NewReservoirState)
                (nextSessionID NewReservoirState \<mapsto> RWMutex_zero),
        nextSessionID := nextSessionID NewReservoirState + 1\<rparr>) (nextSessionID NewReservoirState) =
     Inr (Inr [],
          NewReservoirState\<lparr>sessionToReservoir := (sessionToReservoir NewReservoirState)
                (nextSessionID NewReservoirState := None),
            sessionToSessionLock := (sessionToSessionLock NewReservoirState)
                (nextSessionID NewReservoirState := None),
            nextSessionID := nextSessionID NewReservoirState + 1\<rparr>)"
    by blast+
  then show ?thesis by (simp add: NewReservoirState_def del: run.simps)
qed

text \<open>
  Claim C7 as stated fails at the call after those: in a session begun with the empty
  slice, \<open>MaxInt\<close> calls of \<^verbatim>\<open>AddInteger\<close> return, and the next one does not succeed
  but panics in \<^verbatim>\<open>rand.Intn\<close>.
\<close>

theorem empty_reservoir_counterexample:
  "run (CallBegin [] # replicate (nat MaxInt) (CallAdd 1 0 0) @ [CallAdd 1 0 0]) NewReservoirState =
     Inl IntnInvalidArgument"
proof -
  have "run [CallAdd 1 0 0] full_session_state = Inl IntnInvalidArgument"
    by (simp add: AddInteger_def full_session_state_aborts)
  with reach_full_session_state
  have "run ((CallBegin [] # replicate (nat MaxInt) (CallAdd 1 0 0)) @ [CallAdd 1 0 0]) NewReservoirState =
     Inl IntnInvalidArgument"
    by (rule run_append_Inl)
  then show ?thesis by (simp only: append_Cons)
qed

text \<open>
  Claim C8, as amended: run one after the other, the allocator returns the value of
  the counter before the increment, and the counter starts at 1. So the creations of a
  run from the initial state receive 1, 2, 3, ... in this order (modulo \<open>2 ^ 64\<close>), the
  first one receives 1, and as long as fewer than \<open>2 ^ 64\<close> sessions were created every
  creation receives an identifier strictly greater than all identifiers before it.
\<close>

theorem identifiers_count_up:
  assumes "run cs NewReservoirState = Inr (rs, s)"
  shows "nextSessionID NewReservoirState = 1 \<and>
    AtomicGetSessionIDAndIncrement s = (nextSessionID s, s\<lparr>nextSessionID := nextSessionID s + 1\<rparr>) \<and>
    began_ids rs = map (\<lambda>i. word_of_nat (Suc i)) [0..<length (began_ids rs)] \<and>
    nextSessionID s = word_of_nat (Suc (length (began_ids rs))) \<and>
    (length (began_ids rs) < 2 ^ 64 \<longrightarrow> sorted_wrt (<) (began_ids rs))"
proof -
  note ids = run_ids_initial [OF assms]
  have "sorted_wrt (<) (began_ids rs)" if "length (began_ids rs) < 2 ^ 64"
    using ids_sorted [OF that] ids(1) by simp
  with ids show ?thesis
    by (simp add: NewReservoirState_def AtomicGetSessionIDAndIncrement_def)
qed

theorem identifiers_count_up_witness:
  "run [CallBegin [1, 2, 3], CallBegin [], CallAdd 1 99 1, CallEnd 2] NewReservoirState =
     Inr ([Began 1 None, Began 2 None, Added None, Ended (Inr [])],
          \<lparr>sessionToReservoir = [1 \<mapsto> \<lparr>data = [1, 99, 3], k = 3, n = 4\<rparr>],
           sessionToSessionLock = [1 \<mapsto> RWMutex_zero], nextSessionID = 3\<rparr>) \<and>
   began_ids [Began 1 None, Began 2 None, Added None, Ended (Inr [])] = [1, 2] \<and>
   sorted_wrt (<) (began_ids [Began 1 None, Began 2 None, Added None, Ended (Inr [])])"
  using identifiers_count_up [OF scenario_two_sessions] scenario_two_sessions by simp

text \<open>
  Claim C8 as stated fails once the 64-bit counter wraps around. In \<open>2 ^ 64\<close> rounds of
  beginning a session and ending it before the next one is begun, every call returns, the
  store is the initial store again with its counter at 1, and the identifiers handed out
  are not strictly increasing: the last round receives 0.
\<close>

theorem identifiers_counterexample:
  "run (begin_end_rounds (2 ^ 64) 1) NewReservoirState =
     Inr (rounds_replies (2 ^ 64) 1, NewReservoirState) \<and>
   \<not> sorted_wrt (<) (began_ids (rounds_replies (2 ^ 64) 1))"
  using rounds_wrap rounds_not_sorted by (rule conjI)

text \<open>
  Claim C9 says that after every completed create, update or end operation the reservoir
  map and the lock map have the same key set. \<^verbatim>\<open>AtomicEndReservoirSession\<close> deletes the
  two entries in two separate critical sections, and two creations can receive the same
  identifier (claim C5). In this schedule both creations load the counter 1; the first
  one inserts session 1; the end of session 1 deletes the reservoir entry; the second
  creation inserts session 1 again; the end deletes the lock entry. All three calls have
  returned, and the reservoir map has the key 1 while the lock map has no key.
\<close>

theorem end_between_creations_splits_the_maps:
  "schedule [0, 1, 0, 1, 0, 2, 2, 2, 1, 2, 2]
     [Creating (create_call [1, 2, 3]), Creating (create_call [7]), Ending (end_call 1)]
     NewReservoirState =
   Inr ([Creating \<lparr>c_pc = CreateReturned, c_reservoir = [1, 2, 3], c_sessionID = 1\<rparr>,
         Creating \<lparr>c_pc = CreateReturned, c_reservoir = [7], c_sessionID = 1\<rparr>,
         Ending \<lparr>e_pc = EndReturned (Inr [1, 2, 3]), e_sessionID = 1,
                 e_reservoirLock = RWMutex_zero, e_data = [1, 2, 3]\<rparr>],
        \<lparr>sessionToReservoir = [1 \<mapsto> \<lparr>data = [7], k = 1, n = 1\<rparr>],
         sessionToSessionLock = Map.empty, nextSessionID = 3\<rparr>)"
  by (simp add: create_call_def end_call_def NewReservoirState_def Let_def can_Lock_def
      RWMutex_zero_def)

text \<open>
  Claim C10, as amended: for every existing session whose counter \<open>n\<close> is below the
  largest \<^verbatim>\<open>int\<close> and for every value, the update is total. The argument of
  \<^verbatim>\<open>rand.Intn\<close> is at least 1, the draw returns an index \<open>j \<ge> 0\<close>, an overwrite
  (\<open>j < k\<close>) is within \<open>data\<close>, and the call returns \<^verbatim>\<open>nil\<close>; this includes sessions
  with \<open>k = 0\<close>. The state is any well-formed state, as every reachable state is.
\<close>

theorem update_is_total_below_MaxInt:
  assumes "wf_state s" and "sessionToSessionLock s sessionID = Some m"
    and "sessionToReservoir s sessionID = Some r" and "n r < MaxInt"
  shows "1 \<le> int_add (n r) 1 \<and>
    (\<exists>j. rand_Intn seed (int_add (n r) 1) = Inr j \<and> 0 \<le> j \<and>
         (j < k r \<longrightarrow> j < int (length (data r)))) \<and>
    (\<exists>s1. AtomicUpdateReservoir s seed sessionID v = Inr (None, s1))"
  using assms
proof (rule Update_below_MaxInt)
  fix j
  assume inc: "int_add (n r) 1 = n r + 1" and draw: "rand_Intn seed (n r + 1) = Inr j"
    and j: "0 \<le> j" "j < n r + 1" and inb: "j < k r \<Longrightarrow> nat j < length (data r)"
    and upd: "AtomicUpdateReservoir s seed sessionID v =
           Inr (None, s\<lparr>sessionToReservoir := (sessionToReservoir s)(sessionID \<mapsto>
                  r\<lparr>n := n r + 1, data := (if j < k r then (data r)[nat j := v] else data r)\<rparr>)\<rparr>)"
  from j inc have "1 \<le> int_add (n r) 1" by simp
  moreover from draw inc j inb have "\<exists>j. rand_Intn seed (int_add (n r) 1) = Inr j \<and> 0 \<le> j \<and>
         (j < k r \<longrightarrow> j < int (length (data r)))"
    by auto
  moreover from upd have "\<exists>s1. AtomicUpdateReservoir s seed sessionID v = Inr (None, s1)" by blast
  ultimately show ?thesis by blast
qed

lemma wf_after_begin_add:
  "wf_state \<lparr>sessionToReservoir = [1 \<mapsto> \<lparr>data = [1, 99, 3], k = 3, n = 4\<rparr>],
           sessionToSessionLock = [1 \<mapsto> RWMutex_zero], nextSessionID = 2\<rparr>"
proof -
  have "\<forall>c\<in>set [CallBegin [1, 2, 3], CallAdd 1 99 1]. go_call c"
    by (simp add: go_slice_def MaxInt_def)
  with wf_NewReservoirState show ?thesis using scenario_begin_add by (rule wf_run)
qed

theorem update_is_total_below_MaxInt_witness:
  "1 \<le> int_add (n \<lparr>data = [1, 99, 3], k = 3, n = 4\<rparr>) 1 \<and>
    (\<exists>j. rand_Intn 6 (int_add (n \<lparr>data = [1, 99, 3], k = 3, n = 4\<rparr>) 1) = Inr j \<and> 0 \<le> j \<and>
         (j < k \<lparr>data = [1, 99, 3], k = 3, n = 4\<rparr> \<longrightarrow>
          j < int (length (data \<lparr>data = [1, 99, 3], k = 3, n = 4\<rparr>)))) \<and>
    (\<exists>s1. AtomicUpdateReservoir
            \<lparr>sessionToReservoir = [1 \<mapsto> \<lparr>data = [1, 99, 3], k = 3, n = 4\<rparr>],
             sessionToSessionLock = [1 \<mapsto> RWMutex_zero], nextSessionID = 2\<rparr> 6 1 5 = Inr (None, s1))"
  by (rule update_is_total_below_MaxInt [OF wf_after_begin_add]) (simp_all add: MaxInt_def)

text \<open>
  Claim C10 as stated fails for a session that has been offered \<open>MaxInt\<close> integers: the
  increment wraps around to \<open>MinInt\<close>, which is below 1, and \<^verbatim>\<open>rand.Intn\<close> panics.
  Such a session is reached from the initial state by beginning a session with the
  empty slice and adding \<open>MaxInt\<close> integers to it.
\<close>

theorem update_is_total_counterexample:
  "run (CallBegin [] # replicate (nat MaxInt) (CallAdd 1 0 0)) NewReservoirState =
     Inr (Began 1 None # replicate (nat MaxInt) (Added None), full_session_state) \<and>
   sessionToReservoir full_session_state 1 = Some (empty_session MaxInt) \<and>
   int_add (n (empty_session MaxInt)) 1 = MinInt \<and> MinInt < 1 \<and>
   rand_Intn 0 (int_add (n (empty_session MaxInt)) 1) = Inl IntnInvalidArgument \<and>
   AtomicUpdateReservoir full_session_state 0 1 0 = Inl IntnInvalidArgument"
  using reach_full_session_state full_session_state_aborts [of 0 0]
  by (simp add: full_session_state_def empty_session_def int_add_1_at_max rand_Intn_def MinInt_def
      del: run.simps)

end
